theory Spec2Isabelle
  imports Complex_Main "HOL-Library.Char_ord" "HOL-Library.List_Lexorder"
begin


section \<open>JavaScript values and plain objects\<close>

text \<open>
  A JavaScript value as the runtime passes it around (\<open>unknown\<close> in the TypeScript
  source). Numbers are restricted to integers; functions, symbols and bigints do not
  occur. An object is the list of its own enumerable properties in insertion order
  (keys that look like array indices, which JavaScript enumerates first, are not
  treated apart).
\<close>

datatype jsval =
    JUndefined
  | JNull
  | JBool bool
  | JNum int
  | JStr string
  | JArr "jsval list"
  | JObj "(string \<times> jsval) list"

type_synonym 'v obj = "(string \<times> 'v) list"

text \<open>\<open>o[k]\<close>: \<open>None\<close> stands for \<open>undefined\<close>.\<close>

fun obj_get :: "'v obj \<Rightarrow> string \<Rightarrow> 'v option" where
  "obj_get [] k = None"
| "obj_get ((k', v) # ps) k = (if k' = k then Some v else obj_get ps k)"

text \<open>\<open>o[k] = v\<close>: an existing property keeps its position, a new one is added last.\<close>

fun obj_set :: "'v obj \<Rightarrow> string \<Rightarrow> 'v \<Rightarrow> 'v obj" where
  "obj_set [] k v = [(k, v)]"
| "obj_set ((k', v') # ps) k v = (if k' = k then (k, v) # ps else (k', v') # obj_set ps k v)"

text \<open>Whatever can be thrown: the two error classes of the core, and any other error.\<close>

datatype error =
    ValidationError jsval string
  | ToolError string
  | OtherError string

section \<open>Evaluation harness\<close>

text \<open>
  Metric values, thresholds and aggregates are JavaScript numbers, that is IEEE doubles.
  Their operations belong to the platform: \<open>runEval\<close> takes them as a parameter, the
  number \<open>0\<close>, the operators \<open>+\<close>, \<open>/\<close> and \<open>>=\<close>, and the number a length is. Nothing
  is assumed of them, so what is proved holds however sums and quotients are rounded.
\<close>

record 'n Arith =
  num_zero :: 'n
  num_add :: "'n \<Rightarrow> 'n \<Rightarrow> 'n"
  num_div :: "'n \<Rightarrow> 'n \<Rightarrow> 'n"
  num_of_nat :: "nat \<Rightarrow> 'n"
  num_ge :: "'n \<Rightarrow> 'n \<Rightarrow> bool"

text \<open>
  Of a case only the fields \<open>runEval\<close> reads are kept. A judge is a pure function of the
  input, the output and the expected value.
\<close>

record Case =
  id' :: string
  input :: jsval
  expected :: "jsval option"

record Dataset =
  name :: string
  cases :: "Case list"

record 'n Score =
  metrics :: "'n obj"
  score_notes :: "string option"
  artifacts :: "jsval obj option"

type_synonym 'n Judge = "jsval \<Rightarrow> jsval \<Rightarrow> jsval option \<Rightarrow> 'n Score"

record ('t, 'n) EvalSpec =
  name :: string
  target :: 't
  dataset :: Dataset
  judges :: "'n Judge list"
  thresholds :: "'n obj"

record 'n EvalCaseResult =
  id' :: string
  metrics :: "'n obj"
  case_notes :: "string list option"
  artifacts :: "jsval obj list option"

record 'n EvalRunResult =
  name :: string
  dataset :: string
  cases :: "'n EvalCaseResult list"
  aggregates :: "'n obj"
  passed :: bool

text \<open>
  \<open>runtime.run(target, input)\<close> is a collaborator of \<open>runEval\<close>: it may fail and it
  may change a state of its own (the cache, the trace), of type \<open>'s\<close>.
\<close>

type_synonym ('t, 's) Runtime = "'t \<Rightarrow> jsval \<Rightarrow> 's \<Rightarrow> (error + jsval) \<times> 's"

text \<open>
  The objects \<open>aggregates\<close>, \<open>metrics\<close> and \<open>aggregateSummary\<close> are created as \<open>{}\<close>,
  so a read of a property they do not own goes to \<open>Object.prototype\<close>. These are the
  names found there.
\<close>

definition Object_prototype_names :: "string list" where
  "Object_prototype_names =
     [''constructor'', ''__defineGetter__'', ''__defineSetter__'', ''hasOwnProperty'',
      ''__lookupGetter__'', ''__lookupSetter__'', ''isPrototypeOf'', ''propertyIsEnumerable'',
      ''toString'', ''valueOf'', ''__proto__'', ''toLocaleString'']"

text \<open>
  The body of \<open>Object.entries(score.metrics).forEach(([k, v]) => ...)\<close>, on the
  running per-metric lists and on the metrics of the case. For a name that
  \<open>aggregates\<close> does not own and \<open>Object.prototype\<close> has, \<open>aggregates[k] ?? []\<close> is
  the inherited function or object, which has no \<open>push\<close>: the call throws a TypeError.
\<close>

fun record_metrics :: "'n obj \<Rightarrow> 'n list obj \<times> 'n obj \<Rightarrow> error + 'n list obj \<times> 'n obj" where
  "record_metrics [] (ag, m) = Inr (ag, m)"
| "record_metrics ((k, v) # es) (ag, m) =
     (case obj_get ag k of
        Some vs \<Rightarrow> record_metrics es (obj_set ag k (vs @ [v]), obj_set m k v)
      | None \<Rightarrow>
          if k \<in> set Object_prototype_names
          then Inl (OtherError ''aggregates[k].push is not a function'')
          else record_metrics es (obj_set ag k [v], obj_set m k v))"

text \<open>The loop \<open>for (const judge of spec.judges)\<close> of one case.\<close>

fun run_judges ::
  "'n Judge list \<Rightarrow> Case \<Rightarrow> jsval \<Rightarrow>
   'n list obj \<times> 'n obj \<times> string list \<times> jsval obj list \<Rightarrow>
   error + 'n list obj \<times> 'n obj \<times> string list \<times> jsval obj list" where
  "run_judges [] c out acc = Inr acc"
| "run_judges (judge # js) c out (ag, m, ns, arts) =
     (let score = judge (Case.input c) out (Case.expected c)
      in case record_metrics (Score.metrics score) (ag, m) of
           Inl e \<Rightarrow> Inl e
         | Inr (ag', m') \<Rightarrow>
             (let ns' = (case score_notes score of
                           None \<Rightarrow> ns
                         | Some n \<Rightarrow> if n = [] then ns else ns @ [n]);
                  arts' = (case Score.artifacts score of None \<Rightarrow> arts | Some a \<Rightarrow> arts @ [a])
              in run_judges js c out (ag', m', ns', arts')))"

text \<open>
  The loop \<open>for (const c of spec.dataset.cases)\<close>; a failing run, or a failure while
  the scores of a case are recorded, ends it.
\<close>

fun run_cases ::
  "('t, 's) Runtime \<Rightarrow> 't \<Rightarrow> 'n Judge list \<Rightarrow> Case list \<Rightarrow>
   'n EvalCaseResult list \<times> 'n list obj \<Rightarrow> 's \<Rightarrow>
   (error + 'n EvalCaseResult list \<times> 'n list obj) \<times> 's" where
  "run_cases rt tg js [] acc s = (Inr acc, s)"
| "run_cases rt tg js (c # cs) (done, ag) s =
     (case rt tg (Case.input c) s of
        (Inl e, s') \<Rightarrow> (Inl e, s')
      | (Inr out, s') \<Rightarrow>
          (case run_judges js c out (ag, [], [], []) of
             Inl e \<Rightarrow> (Inl e, s')
           | Inr (ag', m, ns, arts) \<Rightarrow>
               run_cases rt tg js cs
                 (done @ [\<lparr> EvalCaseResult.id' = Case.id' c,
                            metrics = m,
                            case_notes = (if ns = [] then None else Some ns),
                            artifacts = (if arts = [] then None else Some arts) \<rparr>],
                  ag') s'))"

text \<open>\<open>values.reduce((a, b) => a + b, 0) / values.length\<close>\<close>

definition mean :: "'n Arith \<Rightarrow> 'n list \<Rightarrow> 'n" where
  "mean A vs = num_div A (foldl (num_add A) (num_zero A) vs) (num_of_nat A (length vs))"

text \<open>\<open>Object.entries(aggregates).forEach(([k, values]) => aggregateSummary[k] = ...)\<close>\<close>

definition summarize :: "'n Arith \<Rightarrow> 'n list obj \<Rightarrow> 'n obj" where
  "summarize A ag = foldl (\<lambda>acc (k, vs). obj_set acc k (mean A vs)) [] ag"

text \<open>
  The predicate of \<open>Object.entries(spec.thresholds).every(...)\<close>. For a name that
  \<open>aggregateSummary\<close> does not own, \<open>achieved\<close> is \<open>undefined\<close> or what
  \<open>Object.prototype\<close> holds under the name, a function or an object, which \<open>>=\<close>
  compares as NaN: the predicate is false in both cases.
\<close>

definition meets :: "'n Arith \<Rightarrow> 'n obj \<Rightarrow> string \<times> 'n \<Rightarrow> bool" where
  "meets A summary mt =
     (case obj_get summary (fst mt) of
        None \<Rightarrow> False
      | Some achieved \<Rightarrow> num_ge A achieved (snd mt))"

definition runEval ::
  "'n Arith \<Rightarrow> ('t, 'n) EvalSpec \<Rightarrow> ('t, 's) Runtime \<Rightarrow> 's \<Rightarrow> (error + 'n EvalRunResult) \<times> 's" where
  "runEval A spec runtime s =
     (case run_cases runtime (target spec) (judges spec) (Dataset.cases (EvalSpec.dataset spec)) ([], []) s of
        (Inl e, s') \<Rightarrow> (Inl e, s')
      | (Inr (cs, ag), s') \<Rightarrow>
          (let aggregateSummary = summarize A ag;
               passed = list_all (meets A aggregateSummary) (thresholds spec)
           in (Inr \<lparr> EvalRunResult.name = EvalSpec.name spec,
                     dataset = Dataset.name (EvalSpec.dataset spec),
                     cases = cs,
                     aggregates = aggregateSummary,
                     passed = passed \<rparr>, s')))"

section \<open>Trace, context and schemas\<close>

text \<open>
  \<open>randomUUID()\<close> is modelled by a counter: every call returns an identifier that was
  never returned before. Timestamps, durations and metadata of events are left out (they
  come from the wall clock); the other fields are as in \<open>TraceEvent\<close>.
\<close>

type_synonym RunId = nat
type_synonym SpanId = nat

datatype direction = DirInput | DirOutput

datatype TraceEvent =
    SpanStart RunId SpanId "SpanId option" string
  | SpanEnd RunId SpanId "SpanId option" string "string option"
  | LlmCall RunId SpanId string jsval jsval jsval jsval "string option"
  | ToolCall RunId SpanId string jsval jsval "string option"
  | ValidationErrorEv RunId SpanId direction jsval
  | Artifact RunId SpanId string jsval
  | Event RunId SpanId string

text \<open>
  The fields of the constructors, in order:
  \<open>SpanStart\<close> and \<open>SpanEnd\<close>: runId, spanId, parentSpanId, name (and error);
  \<open>LlmCall\<close>: runId, spanId, model, raw, parsed, tokens, costUsd, error (the
  \<open>params\<close> are left out);
  \<open>ToolCall\<close>: runId, spanId, tool, input, output, error;
  \<open>ValidationErrorEv\<close>: runId, spanId, direction, issues;
  \<open>Artifact\<close>: runId, spanId, name, data; \<open>Event\<close>: runId, spanId, name.
\<close>

type_synonym store = "string \<rightharpoonup> jsval"

text \<open>
  What a call can change: the events the sink of the run has received (in order),
  whether the sink was closed, the identifier counter, the contents of the cache, and
  the number of times the backend responder was invoked. The sink only appends:
  \<open>write\<close> and \<open>close\<close> are its whole interface, and neither is taken to throw.
\<close>

record world =
  events :: "TraceEvent list"
  sink_closed :: bool
  next_uuid :: nat
  cache_store :: store
  backend_calls :: nat

text \<open>
  The \<open>Cache\<close> interface: \<open>get\<close> and \<open>set\<close> (here \<open>set'\<close>) are supplied by the
  caller; they read and write the store and may fail. \<open>get\<close> returns \<open>JUndefined\<close> for an absent key.
\<close>

record Cache =
  get :: "string \<Rightarrow> store \<Rightarrow> error + jsval"
  set' :: "string \<Rightarrow> jsval \<Rightarrow> store \<Rightarrow> error + store"

record Trace =
  runId :: RunId
  spanId :: SpanId
  parentSpanId :: "SpanId option"

text \<open>
  \<open>Ctx\<close>: the fields \<open>llm\<close>, \<open>tools\<close> and \<open>policies\<close> are handed on unchanged and
  read by no function modelled here; they are left out.
\<close>

record Ctx =
  runId :: RunId
  spanId :: SpanId
  trace :: Trace
  cache :: "Cache option"

text \<open>A zod schema: \<open>safeParse\<close> returns the issues (\<open>Inl\<close>) or the parsed data.\<close>

record Schema =
  safeParse :: "jsval \<Rightarrow> jsval + jsval"
  toString :: string

text \<open>A step; its output schema is the field \<open>output'\<close>.\<close>

record Step =
  name :: string
  input :: Schema
  output' :: Schema
  run :: "Ctx \<Rightarrow> jsval \<Rightarrow> world \<Rightarrow> (error + jsval) \<times> world"

type_synonym Workflow = Step

text \<open>\<open>RunRecord\<close>, without its times and duration.\<close>

datatype status = success | failure

record RunRecord =
  runId :: RunId
  target :: string
  status :: status

definition randomUUID :: "world \<Rightarrow> nat \<times> world" where
  "randomUUID w = (next_uuid w, w\<lparr>next_uuid := next_uuid w + 1\<rparr>)"

text \<open>\<open>Trace.emit\<close>, that is \<open>sink.write\<close>.\<close>

definition emit :: "TraceEvent \<Rightarrow> world \<Rightarrow> world" where
  "emit e w = w\<lparr>events := events w @ [e]\<rparr>"

definition close :: "world \<Rightarrow> world" where
  "close w = w\<lparr>sink_closed := True\<rparr>"

text \<open>\<open>err?.message ?? String(err)\<close>\<close>

fun err_message :: "error \<Rightarrow> string" where
  "err_message (ValidationError issues msg) = msg"
| "err_message (ToolError msg) = msg"
| "err_message (OtherError msg) = msg"

definition Trace_child :: "Trace \<Rightarrow> string \<Rightarrow> world \<Rightarrow> Trace \<times> world" where
  "Trace_child tr nm w =
     (let (childSpanId, w1) = randomUUID w;
          w2 = emit (SpanStart (Trace.runId tr) childSpanId (Some (Trace.spanId tr)) nm) w1
      in (\<lparr> Trace.runId = Trace.runId tr, spanId = childSpanId,
             parentSpanId = Some (Trace.spanId tr) \<rparr>, w2))"

definition Trace_span ::
  "Trace \<Rightarrow> string \<Rightarrow> (world \<Rightarrow> (error + 'a) \<times> world) \<Rightarrow> world \<Rightarrow> (error + 'a) \<times> world" where
  "Trace_span tr nm fn w =
     (let (spanTrace, w1) = Trace_child tr nm w
      in case fn w1 of
           (Inr result, w2) \<Rightarrow>
             (Inr result,
              emit (SpanEnd (Trace.runId tr) (Trace.spanId spanTrace) (parentSpanId spanTrace) nm None) w2)
         | (Inl err, w2) \<Rightarrow>
             (Inl err,
              emit (SpanEnd (Trace.runId tr) (Trace.spanId spanTrace) (parentSpanId spanTrace) nm
                      (Some (err_message err))) w2))"

definition Trace_event :: "Trace \<Rightarrow> string \<Rightarrow> world \<Rightarrow> world" where
  "Trace_event tr nm w = emit (Event (Trace.runId tr) (Trace.spanId tr) nm) w"

text \<open>\<open>RuntimeCtx.child\<close>\<close>

definition Ctx_child :: "Ctx \<Rightarrow> string \<Rightarrow> world \<Rightarrow> Ctx \<times> world" where
  "Ctx_child ctx stepName w =
     (let (childTrace, w1) = Trace_child (trace ctx) stepName w
      in (\<lparr> Ctx.runId = Ctx.runId ctx, spanId = Trace.spanId childTrace,
             trace = childTrace, cache = cache ctx \<rparr>, w1))"

fun direction_string :: "direction \<Rightarrow> string" where
  "direction_string DirInput = ''input''"
| "direction_string DirOutput = ''output''"

definition validateWithZod ::
  "Schema \<Rightarrow> jsval \<Rightarrow> direction \<Rightarrow> Trace \<Rightarrow> SpanId \<Rightarrow> world \<Rightarrow> (error + jsval) \<times> world" where
  "validateWithZod schema v dir tr sid w =
     (case safeParse schema v of
        Inl issues \<Rightarrow>
          (Inl (ValidationError issues (direction_string dir @ '' validation failed'')),
           emit (ValidationErrorEv (Trace.runId tr) sid dir issues) w)
      | Inr data \<Rightarrow> (Inr data, w))"

section \<open>Step and workflow wrappers\<close>

text \<open>
  The input is validated before the \<open>try\<close> block is entered; the body and the
  validation of its result run inside it, and its \<open>catch\<close> emits \<open>span_end\<close> with
  the error message and rethrows.
\<close>

definition defineStep :: "Step \<Rightarrow> Step" where
  "defineStep step = step\<lparr> run := (\<lambda>ctx inp w.
     (let (spanCtx, w1) = Ctx_child ctx (name step) w
      in case validateWithZod (input step) inp DirInput (trace spanCtx) (Ctx.spanId spanCtx) w1 of
           (Inl err, w2) \<Rightarrow> (Inl err, w2)
         | (Inr validatedInput, w2) \<Rightarrow>
             (case run step spanCtx validatedInput w2 of
                (Inl err, w3) \<Rightarrow>
                  (Inl err,
                   emit (SpanEnd (Trace.runId (trace spanCtx)) (Ctx.spanId spanCtx)
                           (parentSpanId (trace spanCtx)) (name step) (Some (err_message err))) w3)
              | (Inr result, w3) \<Rightarrow>
                  (case validateWithZod (output' step) result DirOutput (trace spanCtx) (Ctx.spanId spanCtx) w3 of
                     (Inl err, w4) \<Rightarrow>
                       (Inl err,
                        emit (SpanEnd (Trace.runId (trace spanCtx)) (Ctx.spanId spanCtx)
                                (parentSpanId (trace spanCtx)) (name step) (Some (err_message err))) w4)
                   | (Inr validatedOutput, w4) \<Rightarrow>
                       (Inr validatedOutput,
                        emit (SpanEnd (Trace.runId (trace spanCtx)) (Ctx.spanId spanCtx)
                                (parentSpanId (trace spanCtx)) (name step) None) w4))))) \<rparr>"

definition defineWorkflow :: "Workflow \<Rightarrow> Workflow" where
  "defineWorkflow workflow = workflow\<lparr> run := (\<lambda>ctx inp w.
     (let (spanCtx, w1) = Ctx_child ctx (name workflow) w
      in case validateWithZod (input workflow) inp DirInput (trace spanCtx) (Ctx.spanId spanCtx) w1 of
           (Inl err, w2) \<Rightarrow> (Inl err, w2)
         | (Inr validatedInput, w2) \<Rightarrow>
             (case run workflow spanCtx validatedInput w2 of
                (Inl err, w3) \<Rightarrow>
                  (Inl err,
                   emit (SpanEnd (Trace.runId (trace spanCtx)) (Ctx.spanId spanCtx)
                           (parentSpanId (trace spanCtx)) (name workflow) (Some (err_message err))) w3)
              | (Inr result, w3) \<Rightarrow>
                  (case validateWithZod (output' workflow) result DirOutput (trace spanCtx) (Ctx.spanId spanCtx) w3 of
                     (Inl err, w4) \<Rightarrow>
                       (Inl err,
                        emit (SpanEnd (Trace.runId (trace spanCtx)) (Ctx.spanId spanCtx)
                                (parentSpanId (trace spanCtx)) (name workflow) (Some (err_message err))) w4)
                   | (Inr validatedOutput, w4) \<Rightarrow>
                       (Inr validatedOutput,
                        emit (SpanEnd (Trace.runId (trace spanCtx)) (Ctx.spanId spanCtx)
                                (parentSpanId (trace spanCtx)) (name workflow) None) w4))))) \<rparr>"

section \<open>Run orchestrator\<close>

text \<open>
  The \<open>catch\<close> block of \<open>run\<close>: root \<open>span_end\<close> with the message, close, rethrow. Its
  first statement, \<open>status = 'failure'\<close>, writes a local variable that is read only in the
  \<open>try\<close> block, where the RunRecord is built: it has no effect on what \<open>run\<close> returns or
  throws.
\<close>

definition run_catch ::
  "RunId \<Rightarrow> SpanId \<Rightarrow> string \<Rightarrow> error \<Rightarrow> world \<Rightarrow> (error + jsval \<times> RunRecord) \<times> world" where
  "run_catch rid rootSpanId nm err w =
     (Inl err, close (emit (SpanEnd rid rootSpanId None nm (Some (err_message err))) w))"

text \<open>\<open>createRuntime(options).run(target, input)\<close>; of the options only the cache matters here.\<close>

definition createRuntime_run ::
  "Cache option \<Rightarrow> Step \<Rightarrow> jsval \<Rightarrow> world \<Rightarrow> (error + jsval \<times> RunRecord) \<times> world" where
  "createRuntime_run options_cache tg inp w =
     (let (rid, w1) = randomUUID w;
          (rootSpanId, w2) = randomUUID w1;
          tr = \<lparr> Trace.runId = rid, spanId = rootSpanId, parentSpanId = None \<rparr>;
          w3 = emit (SpanStart rid rootSpanId None (name tg)) w2;
          ctx = \<lparr> Ctx.runId = rid, spanId = rootSpanId, trace = tr, cache = options_cache \<rparr>
      in case validateWithZod (input tg) inp DirInput tr rootSpanId w3 of
           (Inl err, w4) \<Rightarrow> run_catch rid rootSpanId (name tg) err w4
         | (Inr validatedInput, w4) \<Rightarrow>
             (case run tg ctx validatedInput w4 of
                (Inl err, w5) \<Rightarrow> run_catch rid rootSpanId (name tg) err w5
              | (Inr out, w5) \<Rightarrow>
                  (case validateWithZod (output' tg) out DirOutput tr rootSpanId w5 of
                     (Inl err, w6) \<Rightarrow> run_catch rid rootSpanId (name tg) err w6
                   | (Inr validatedOutput, w6) \<Rightarrow>
                       (Inr (validatedOutput,
                             \<lparr> RunRecord.runId = rid, target = name tg, status = success \<rparr>),
                        close (emit (SpanEnd rid rootSpanId None (name tg) None) w6)))))"

section \<open>Cache-aware generation call\<close>

subsection \<open>Built-ins of the platform\<close>

text \<open>
  \<open>String.prototype.localeCompare\<close> and \<open>JSON.parse\<close> belong to the platform, not to
  the repository: they are parameters. \<open>JSON.parse\<close> returns \<open>None\<close> where it throws.
\<close>

record Platform =
  localeCompare :: "string \<Rightarrow> string \<Rightarrow> int"
  JSON_parse :: "string \<Rightarrow> jsval option"

text \<open>\<open>JSON.stringify\<close> on a number (an integer here) and on a string.\<close>

definition digit_char :: "nat \<Rightarrow> char" where
  "digit_char d = char_of (48 + d)"

fun show_nat :: "nat \<Rightarrow> string" where
  "show_nat n = (if n < 10 then [digit_char n] else show_nat (n div 10) @ [digit_char (n mod 10)])"

declare show_nat.simps [simp del]

definition show_int :: "int \<Rightarrow> string" where
  "show_int i = (if i < 0 then ''-'' @ show_nat (nat (- i)) else show_nat (nat i))"

definition hex_digit :: "nat \<Rightarrow> char" where
  "hex_digit d = (if d < 10 then char_of (48 + d) else char_of (87 + d))"

definition json_escape :: "char \<Rightarrow> string" where
  "json_escape c =
     (if c = CHR 0x22 then [CHR 0x5C, CHR 0x22]
      else if c = CHR 0x5C then [CHR 0x5C, CHR 0x5C]
      else if c = CHR 0x08 then [CHR 0x5C, CHR ''b'']
      else if c = CHR 0x0C then [CHR 0x5C, CHR ''f'']
      else if c = CHR 0x0A then [CHR 0x5C, CHR ''n'']
      else if c = CHR 0x0D then [CHR 0x5C, CHR ''r'']
      else if c = CHR 0x09 then [CHR 0x5C, CHR ''t'']
      else if (of_char c :: nat) < 32 then
        [CHR 0x5C, CHR ''u'', CHR ''0'', CHR ''0'',
         hex_digit ((of_char c :: nat) div 16), hex_digit ((of_char c :: nat) mod 16)]
      else [c])"

definition JSON_quote :: "string \<Rightarrow> string" where
  "JSON_quote s = [CHR 0x22] @ concat (map json_escape s) @ [CHR 0x22]"

text \<open>\<open>Array.prototype.join(",")\<close> on strings.\<close>

fun join_comma :: "string list \<Rightarrow> string" where
  "join_comma [] = []"
| "join_comma [x] = x"
| "join_comma (x # y # ys) = x @ '','' @ join_comma (y # ys)"

text \<open>
  \<open>Array.prototype.sort\<close> with the comparator \<open>([a], [b]) => a.localeCompare(b)\<close>: the
  sort is stable, what an insertion sort from the right computes.
\<close>

fun insort_by :: "(string \<Rightarrow> string \<Rightarrow> int) \<Rightarrow> string \<times> 'v \<Rightarrow> 'v obj \<Rightarrow> 'v obj" where
  "insort_by cmp x [] = [x]"
| "insort_by cmp x (y # ys) =
     (if cmp (fst x) (fst y) \<le> 0 then x # y # ys else y # insort_by cmp x ys)"

definition sort_entries :: "(string \<Rightarrow> string \<Rightarrow> int) \<Rightarrow> 'v obj \<Rightarrow> 'v obj" where
  "sort_entries cmp es = foldr (insort_by cmp) es []"

lemma set_insort_by [simp]: "set (insort_by cmp x ys) = insert x (set ys)"
  by (induction ys) auto

lemma set_sort_entries [simp]: "set (sort_entries cmp es) = set es"
  by (induction es) (auto simp: sort_entries_def)

lemma size_entry_less: "e \<in> set es \<Longrightarrow> size (snd e) < Suc (size_list (size_prod (\<lambda>x. 0) size) es)"
proof (induction es)
  case Nil
  then show ?case by simp
next
  case (Cons a es)
  then show ?case by (cases e) auto
qed

subsection \<open>The cache key\<close>

text \<open>
  \<open>stableStringify\<close>; \<open>None\<close> is the value \<open>undefined\<close>, which \<open>JSON.stringify\<close>
  returns for \<open>undefined\<close>: \<open>join\<close> renders it as the empty string and the template
  literal of an object entry as \<open>undefined\<close>.
\<close>

function stableStringify :: "(string \<Rightarrow> string \<Rightarrow> int) \<Rightarrow> jsval \<Rightarrow> string option" where
  "stableStringify cmp JUndefined = None"
| "stableStringify cmp JNull = Some ''null''"
| "stableStringify cmp (JBool b) = Some (if b then ''true'' else ''false'')"
| "stableStringify cmp (JNum n) = Some (show_int n)"
| "stableStringify cmp (JStr s) = Some (JSON_quote s)"
| "stableStringify cmp (JArr vs) =
     Some (''['' @ join_comma (map (\<lambda>v. case stableStringify cmp v of None \<Rightarrow> [] | Some s \<Rightarrow> s) vs) @ '']'')"
| "stableStringify cmp (JObj es) =
     Some (''{'' @ join_comma
             (map (\<lambda>e. JSON_quote (fst e) @ '':'' @
                        (case stableStringify cmp (snd e) of None \<Rightarrow> ''undefined'' | Some s \<Rightarrow> s))
                  (sort_entries cmp es)) @ ''}'')"
  by pat_completeness auto
termination
proof (relation "measure (\<lambda>(cmp, v). size v)")
  show "wf (measure (\<lambda>(cmp, v). size v))" by simp
next
  fix cmp :: "string \<Rightarrow> string \<Rightarrow> int" and vs :: "jsval list" and v
  assume "v \<in> set vs"
  then show "((cmp, v), (cmp, JArr vs)) \<in> measure (\<lambda>(cmp, v). size v)"
    by (simp add: less_Suc_eq_le size_list_estimation')
next
  fix cmp :: "string \<Rightarrow> string \<Rightarrow> int" and es :: "(string \<times> jsval) list" and e
  assume "e \<in> set (sort_entries cmp es)"
  then show "((cmp, snd e), (cmp, JObj es)) \<in> measure (\<lambda>(cmp, v). size v)"
    by (simp add: size_entry_less)
qed

record LLMGenerateArgs =
  model :: string
  messages :: "jsval list"
  schema :: "Schema option"
  temperature :: "int option"
  maxTokens :: "int option"
  tools :: "jsval list option"

text \<open>What the responder returns; an absent \<open>tokens\<close> or \<open>costUsd\<close> is \<open>JUndefined\<close>.\<close>

record LLMResponse =
  raw :: string
  tokens :: jsval
  costUsd :: jsval

type_synonym LLMResponder = "LLMGenerateArgs \<Rightarrow> error + LLMResponse"

text \<open>The object literal handed to \<open>stableStringify\<close> in \<open>generate\<close>.\<close>

definition cacheKeyObject :: "LLMGenerateArgs \<Rightarrow> jsval" where
  "cacheKeyObject args =
     JObj [(''provider'', JStr ''programmable''),
           (''model'', JStr (model args)),
           (''messages'', JArr (messages args)),
           (''schema'', (case schema args of None \<Rightarrow> JUndefined | Some sch \<Rightarrow> JStr (toString sch))),
           (''temperature'', JNum (case temperature args of None \<Rightarrow> 0 | Some t \<Rightarrow> t)),
           (''maxTokens'', (case maxTokens args of None \<Rightarrow> JUndefined | Some n \<Rightarrow> JNum n)),
           (''tools'', JArr (case tools args of None \<Rightarrow> [] | Some ts \<Rightarrow> ts))]"

definition cacheKey :: "Platform \<Rightarrow> LLMGenerateArgs \<Rightarrow> string" where
  "cacheKey P args =
     (case stableStringify (localeCompare P) (cacheKeyObject args) of
        None \<Rightarrow> ''undefined''
      | Some s \<Rightarrow> s)"

subsection \<open>The call\<close>

text \<open>The test of \<open>if (cached)\<close>.\<close>

fun truthy :: "jsval \<Rightarrow> bool" where
  "truthy JUndefined = False"
| "truthy JNull = False"
| "truthy (JBool b) = b"
| "truthy (JNum n) = (n \<noteq> 0)"
| "truthy (JStr s) = (s \<noteq> [])"
| "truthy (JArr vs) = True"
| "truthy (JObj es) = True"

definition maybeGet :: "Cache option \<Rightarrow> string \<Rightarrow> world \<Rightarrow> error + jsval" where
  "maybeGet c key w =
     (case c of
        None \<Rightarrow> Inr JUndefined
      | Some ch \<Rightarrow> get ch key (cache_store w))"

definition maybeSet :: "Cache option \<Rightarrow> string \<Rightarrow> jsval \<Rightarrow> world \<Rightarrow> error + world" where
  "maybeSet c key v w =
     (case c of
        None \<Rightarrow> Inr w
      | Some ch \<Rightarrow>
          (case set' ch key v (cache_store w) of
             Inl err \<Rightarrow> Inl err
           | Inr st \<Rightarrow> Inr (w\<lparr>cache_store := st\<rparr>)))"

definition parseWithSchema :: "Platform \<Rightarrow> Schema \<Rightarrow> string \<Rightarrow> error + jsval" where
  "parseWithSchema P sch rw =
     (let candidate = (case JSON_parse P rw of Some j \<Rightarrow> j | None \<Rightarrow> JStr rw)
      in case safeParse sch candidate of
           Inl issues \<Rightarrow> Inl (ValidationError issues ''LLM output failed schema validation'')
         | Inr data \<Rightarrow> Inr data)"

text \<open>
  The \<open>catch\<close> and \<open>finally\<close> blocks of \<open>generate\<close> on a failure inside \<open>try\<close>:
  an \<open>llm_call\<close> event with the error, the \<open>llm_call_complete\<close> event, rethrow.
\<close>

definition generate_catch :: "Ctx \<Rightarrow> LLMGenerateArgs \<Rightarrow> error \<Rightarrow> world \<Rightarrow> (error + jsval) \<times> world" where
  "generate_catch ctx args err w =
     (Inl err,
      Trace_event (trace ctx) ''llm_call_complete''
        (emit (LlmCall (Ctx.runId ctx) (Ctx.spanId ctx) (model args)
                 JUndefined JUndefined JUndefined JUndefined (Some (err_message err))) w))"

text \<open>The object literal \<open>result\<close> of \<open>generate\<close>.\<close>

definition llm_result :: "LLMResponse \<Rightarrow> jsval \<Rightarrow> jsval" where
  "llm_result response parsed =
     JObj [(''raw'', JStr (raw response)),
           (''parsed'', parsed),
           (''tokens'', tokens response),
           (''costUsd'', costUsd response)]"

text \<open>
  The \<open>try\<close> block of \<open>generate\<close> with its \<open>catch\<close> and \<open>finally\<close>: what a cache
  miss runs. Every invocation of the responder is counted in \<open>backend_calls\<close>.
\<close>

definition generate_try ::
  "Platform \<Rightarrow> LLMResponder \<Rightarrow> Ctx \<Rightarrow> LLMGenerateArgs \<Rightarrow> string \<Rightarrow> world \<Rightarrow> (error + jsval) \<times> world" where
  "generate_try P responder ctx args key w =
     (let w1 = w\<lparr>backend_calls := backend_calls w + 1\<rparr>
      in case responder args of
           Inl err \<Rightarrow> generate_catch ctx args err w1
         | Inr response \<Rightarrow>
             (case (case schema args of
                      None \<Rightarrow> Inr JUndefined
                    | Some sch \<Rightarrow> parseWithSchema P sch (raw response)) of
                Inl err \<Rightarrow> generate_catch ctx args err w1
              | Inr parsed \<Rightarrow>
                  (let result = llm_result response parsed;
                       w2 = emit (LlmCall (Ctx.runId ctx) (Ctx.spanId ctx) (model args)
                                    (JStr (raw response)) parsed (tokens response)
                                    (costUsd response) None) w1
                   in case maybeSet (cache ctx) key result w2 of
                        Inl err \<Rightarrow> generate_catch ctx args err w2
                      | Inr w3 \<Rightarrow>
                          (Inr result, Trace_event (trace ctx) ''llm_call_complete'' w3))))"

text \<open>
  \<open>ProgrammableLLMClient.generate\<close>. The cache is read before the \<open>try\<close> block, so a
  failing \<open>get\<close> propagates untraced; a truthy cached value is returned as it is.
\<close>

definition generate ::
  "Platform \<Rightarrow> LLMResponder \<Rightarrow> Ctx \<Rightarrow> LLMGenerateArgs \<Rightarrow> world \<Rightarrow> (error + jsval) \<times> world" where
  "generate P responder ctx args w =
     (let key = cacheKey P args
      in case maybeGet (cache ctx) key w of
           Inl err \<Rightarrow> (Inl err, w)
         | Inr cached \<Rightarrow>
             if truthy cached then (Inr cached, w)
             else generate_try P responder ctx args key w)"

section \<open>What the evaluation harness is compared with\<close>

text \<open>
  The values a list of metric entries holds for the name \<open>k\<close>, the values the judges
  of one case emit for it (in the order of the judges), the outputs of the successive
  runs of a dataset, and all values emitted for \<open>k\<close> over the dataset, in the order in
  which \<open>runEval\<close> records them.
\<close>

definition metric_values :: "'n obj \<Rightarrow> string \<Rightarrow> 'n list" where
  "metric_values es k = map snd (filter (\<lambda>e. fst e = k) es)"

definition judged_values :: "'n Judge list \<Rightarrow> Case \<Rightarrow> jsval \<Rightarrow> string \<Rightarrow> 'n list" where
  "judged_values js c out k =
     concat (map (\<lambda>j. metric_values (Score.metrics (j (Case.input c) out (Case.expected c))) k) js)"

fun run_outputs :: "('t, 's) Runtime \<Rightarrow> 't \<Rightarrow> Case list \<Rightarrow> 's \<Rightarrow> jsval list" where
  "run_outputs rt tg [] s = []"
| "run_outputs rt tg (c # cs) s =
     (case rt tg (Case.input c) s of
        (Inl e, s') \<Rightarrow> []
      | (Inr out, s') \<Rightarrow> out # run_outputs rt tg cs s')"

definition all_values :: "'n Judge list \<Rightarrow> Case list \<Rightarrow> jsval list \<Rightarrow> string \<Rightarrow> 'n list" where
  "all_values js cs outs k = concat (map (\<lambda>(c, out). judged_values js c out k) (zip cs outs))"

text \<open>The running list of a metric name, and the invariant of the running lists.\<close>

definition agg_values :: "'n list obj \<Rightarrow> string \<Rightarrow> 'n list" where
  "agg_values ag k = (case obj_get ag k of None \<Rightarrow> [] | Some vs \<Rightarrow> vs)"

definition agg_ok :: "'n list obj \<Rightarrow> bool" where
  "agg_ok ag = (distinct (map fst ag) \<and> (\<forall>e \<in> set ag. snd e \<noteq> []))"

subsection \<open>The numbers of JavaScript\<close>

text \<open>
  A finite IEEE 754 double is \<open>m * 2 ^ e\<close> for integers \<open>m\<close> and \<open>e\<close>, kept with \<open>m\<close> odd
  (or as \<open>(0, 0)\<close>). A sum or a quotient is the exact result rounded to 53 significant
  bits, to the nearest double and to the even one in a tie. Infinities, NaN, the sign
  of zero, overflow and the subnormal range are not represented: this is the arithmetic
  of JavaScript on the numbers of the examples below, given to \<open>runEval\<close> as its
  parameter there.
\<close>

type_synonym dbl = "int \<times> int"

text \<open>The number of bits of a positive integer.\<close>

function bitlen :: "int \<Rightarrow> int" where
  "bitlen n = (if n \<le> 0 then 0 else 1 + bitlen (n div 2))"
  by pat_completeness auto
termination
  by (relation "measure nat") auto

declare bitlen.simps [simp del]

function dbl_norm :: "int \<Rightarrow> int \<Rightarrow> dbl" where
  "dbl_norm m e = (if m = 0 then (0, 0) else if even m then dbl_norm (m div 2) (e + 1) else (m, e))"
  by pat_completeness auto
termination
  by (relation "measure (\<lambda>(m, e). nat \<bar>m\<bar>)") auto

declare dbl_norm.simps [simp del]

text \<open>
  \<open>Q / 2 ^ k\<close> rounded to an integer, to the nearest and to the even one in a tie;
  \<open>sticky\<close> tells that \<open>Q\<close> is itself a quotient that was cut off.
\<close>

definition round_even :: "int \<Rightarrow> int \<Rightarrow> bool \<Rightarrow> int" where
  "round_even Q k sticky =
     (let q = Q div 2 ^ nat k; r = Q mod 2 ^ nat k; half = 2 ^ nat (k - 1)
      in if k \<le> 0 then Q
         else if half < r \<or> (r = half \<and> sticky) then q + 1
         else if r = half \<and> odd q then q + 1
         else q)"

text \<open>The double nearest to \<open>(n / d) * 2 ^ e\<close>, for \<open>d > 0\<close>.\<close>

definition dbl_round :: "int \<Rightarrow> int \<Rightarrow> int \<Rightarrow> dbl" where
  "dbl_round n d e =
     (if n = 0 then (0, 0)
      else
        (let a = \<bar>n\<bar>;
             s = max 0 (55 + bitlen d - bitlen a);
             Q = (a * 2 ^ nat s) div d;
             sticky = ((a * 2 ^ nat s) mod d \<noteq> 0);
             k = bitlen Q - 53
         in dbl_norm (sgn n * round_even Q k sticky) (e - s + k)))"

definition dbl_add :: "dbl \<Rightarrow> dbl \<Rightarrow> dbl" where
  "dbl_add x y =
     (let e = min (snd x) (snd y)
      in dbl_round (fst x * 2 ^ nat (snd x - e) + fst y * 2 ^ nat (snd y - e)) 1 e)"

definition dbl_div :: "dbl \<Rightarrow> dbl \<Rightarrow> dbl" where
  "dbl_div x y = dbl_round (fst x * sgn (fst y)) \<bar>fst y\<bar> (snd x - snd y)"

definition dbl_of_nat :: "nat \<Rightarrow> dbl" where
  "dbl_of_nat n = dbl_round (int n) 1 0"

definition dbl_ge :: "dbl \<Rightarrow> dbl \<Rightarrow> bool" where
  "dbl_ge x y =
     (let e = min (snd x) (snd y)
      in fst y * 2 ^ nat (snd y - e) \<le> fst x * 2 ^ nat (snd x - e))"

text \<open>The real number a double is.\<close>

definition dbl_val :: "dbl \<Rightarrow> real" where
  "dbl_val x = (if 0 \<le> snd x then of_int (fst x) * 2 ^ nat (snd x)
                else of_int (fst x) / 2 ^ nat (- snd x))"

definition double_arith :: "dbl Arith" where
  "double_arith =
     \<lparr> num_zero = (0, 0), num_add = dbl_add, num_div = dbl_div,
       num_of_nat = dbl_of_nat, num_ge = dbl_ge \<rparr>"

text \<open>Arithmetic without rounding, on the real numbers.\<close>

definition exact_arith :: "real Arith" where
  "exact_arith =
     \<lparr> num_zero = 0, num_add = (+), num_div = (/), num_of_nat = real, num_ge = (\<lambda>x y. y \<le> x) \<rparr>"

subsection \<open>Examples\<close>

text \<open>
  A runtime that echoes its input, a judge that emits one metric whose value depends on
  the output, and evaluations of two and of three cases. The values are the doubles
  \<open>1/2 = (1, -1)\<close>, \<open>1 = (1, 0)\<close>, \<open>3/4 = (3, -2)\<close>, \<open>1/4 = (1, -2)\<close>, \<open>9/16 = (9, -4)\<close>
  and \<open>2 ^ -53 = (1, -53)\<close>.
\<close>

definition ex_cases :: "Case list" where
  "ex_cases = [\<lparr> Case.id' = ''c1'', input = JStr ''a'', expected = None \<rparr>,
               \<lparr> Case.id' = ''c2'', input = JStr ''b'', expected = None \<rparr>]"

definition ex_cases3 :: "Case list" where
  "ex_cases3 = [\<lparr> Case.id' = ''c1'', input = JStr ''a'', expected = None \<rparr>,
                \<lparr> Case.id' = ''c2'', input = JStr ''b'', expected = None \<rparr>,
                \<lparr> Case.id' = ''c3'', input = JStr ''c'', expected = None \<rparr>]"

definition ex_runtime :: "(unit, unit) Runtime" where
  "ex_runtime tg inp s = (Inr inp, s)"

definition ex_judge :: "string \<Rightarrow> dbl \<Rightarrow> dbl \<Rightarrow> dbl Judge" where
  "ex_judge k x y inp out ex =
     \<lparr> Score.metrics = [(k, if out = JStr ''a'' then x else y)], score_notes = None, artifacts = None \<rparr>"

definition ex_spec :: "Case list \<Rightarrow> dbl Judge list \<Rightarrow> dbl \<Rightarrow> (unit, dbl) EvalSpec" where
  "ex_spec cs js t =
     \<lparr> EvalSpec.name = ''ex'', target = (),
       dataset = \<lparr> Dataset.name = ''d'', cases = cs \<rparr>,
       judges = js, thresholds = [(''key_terms'', t)] \<rparr>"

definition ex_result :: "dbl EvalRunResult" where
  "ex_result =
     \<lparr> EvalRunResult.name = ''ex'', dataset = ''d'',
       cases = [\<lparr> EvalCaseResult.id' = ''c1'', metrics = [(''key_terms'', (1, -1))], case_notes = None, artifacts = None \<rparr>,
                \<lparr> EvalCaseResult.id' = ''c2'', metrics = [(''key_terms'', (1, 0))], case_notes = None, artifacts = None \<rparr>],
       aggregates = [(''key_terms'', (3, -2))], passed = True \<rparr>"

definition ex_result_collide :: "dbl EvalRunResult" where
  "ex_result_collide =
     \<lparr> EvalRunResult.name = ''ex'', dataset = ''d'',
       cases = [\<lparr> EvalCaseResult.id' = ''c1'', metrics = [(''key_terms'', (1, 0))], case_notes = None, artifacts = None \<rparr>,
                \<lparr> EvalCaseResult.id' = ''c2'', metrics = [(''key_terms'', (1, 0))], case_notes = None, artifacts = None \<rparr>],
       aggregates = [(''key_terms'', (9, -4))], passed = False \<rparr>"

definition ex_result3 :: "dbl EvalRunResult" where
  "ex_result3 =
     \<lparr> EvalRunResult.name = ''ex'', dataset = ''d'',
       cases = [\<lparr> EvalCaseResult.id' = ''c1'', metrics = [(''key_terms'', (1, 0))], case_notes = None, artifacts = None \<rparr>,
                \<lparr> EvalCaseResult.id' = ''c2'', metrics = [(''key_terms'', (1, -53))], case_notes = None, artifacts = None \<rparr>,
                \<lparr> EvalCaseResult.id' = ''c3'', metrics = [(''key_terms'', (1, -53))], case_notes = None, artifacts = None \<rparr>],
       aggregates = [(''key_terms'', (6004799503160661, -54))], passed = False \<rparr>"

section \<open>What the runtime is compared with\<close>

text \<open>
  An event closes the span \<open>sid\<close>; the events a call added to the log; a body that only
  appends to the log, and whose \<open>span_end\<close> events are all for spans allocated during
  the call (what every body built from \<open>child\<close>, \<open>span\<close>, wrapped steps and generation
  calls does).
\<close>

fun is_span_end :: "SpanId \<Rightarrow> TraceEvent \<Rightarrow> bool" where
  "is_span_end sid (SpanEnd r s p n e) = (s = sid)"
| "is_span_end sid _ = False"

definition emitted :: "world \<Rightarrow> world \<Rightarrow> TraceEvent list" where
  "emitted w w' = drop (length (events w)) (events w')"

definition appends_own_spans :: "(Ctx \<Rightarrow> jsval \<Rightarrow> world \<Rightarrow> (error + jsval) \<times> world) \<Rightarrow> bool" where
  "appends_own_spans f =
     (\<forall>ctx v w. \<exists>evs. events (snd (f ctx v w)) = events w @ evs \<and>
        (\<forall>e \<in> set evs. \<forall>sid. is_span_end sid e \<longrightarrow> next_uuid w \<le> sid))"

text \<open>
  The world in which \<open>run\<close> enters its \<open>try\<close> block and the context it has built; the
  error thrown by the call chain of a run, if any (input validation, the target, output
  validation); the record a result carries.
\<close>

definition run_started :: "Step \<Rightarrow> world \<Rightarrow> world" where
  "run_started tg w =
     emit (SpanStart (next_uuid w) (next_uuid w + 1) None (name tg)) (w\<lparr>next_uuid := next_uuid w + 2\<rparr>)"

definition run_ctx :: "Cache option \<Rightarrow> world \<Rightarrow> Ctx" where
  "run_ctx oc w =
     \<lparr> Ctx.runId = next_uuid w, spanId = next_uuid w + 1,
       trace = \<lparr> Trace.runId = next_uuid w, spanId = next_uuid w + 1, parentSpanId = None \<rparr>,
       cache = oc \<rparr>"

definition result_record :: "error + jsval \<times> RunRecord \<Rightarrow> RunRecord option" where
  "result_record r = (case r of Inl e \<Rightarrow> None | Inr (out, rec) \<Rightarrow> Some rec)"

text \<open>Examples: a schema for non-empty strings, an echo step, a step whose body throws.\<close>

definition nonempty_string :: Schema where
  "nonempty_string =
     \<lparr> safeParse = (\<lambda>v. case v of
                        JStr s \<Rightarrow> if s = [] then Inl (JArr [JStr ''too_small'']) else Inr v
                      | _ \<Rightarrow> Inl (JArr [JStr ''invalid_type''])),
       toString = ''[object Object]'' \<rparr>"

definition ex_step :: Step where
  "ex_step = \<lparr> Step.name = ''echo'', input = nonempty_string, output' = nonempty_string,
               run = (\<lambda>ctx v w. (Inr v, w)) \<rparr>"

definition ex_failing :: Step where
  "ex_failing = \<lparr> Step.name = ''failing'', input = nonempty_string, output' = nonempty_string,
                  run = (\<lambda>ctx v w. (Inl (OtherError ''boom''), w)) \<rparr>"

definition w0 :: world where
  "w0 = \<lparr> events = [], sink_closed = False, next_uuid = 2, cache_store = Map.empty, backend_calls = 0 \<rparr>"

definition ex_ctx :: Ctx where
  "ex_ctx = \<lparr> Ctx.runId = 0, spanId = 1,
              trace = \<lparr> Trace.runId = 0, spanId = 1, parentSpanId = None \<rparr>, cache = None \<rparr>"

definition chain_error :: "Cache option \<Rightarrow> Step \<Rightarrow> jsval \<Rightarrow> world \<Rightarrow> error option" where
  "chain_error oc tg inp w =
     (case safeParse (input tg) inp of
        Inl issues \<Rightarrow> Some (ValidationError issues ''input validation failed'')
      | Inr v \<Rightarrow>
          (case run tg (run_ctx oc w) v (run_started tg w) of
             (Inl e, w') \<Rightarrow> Some e
           | (Inr out, w') \<Rightarrow>
               (case safeParse (output' tg) out of
                  Inl issues \<Rightarrow> Some (ValidationError issues ''output validation failed'')
                | Inr data \<Rightarrow> None)))"

section \<open>What the generation call is compared with\<close>

text \<open>
  Three caches. \<open>mapCache\<close> is an in-memory map. \<open>fileCache\<close> is the \<open>FileCache\<close> of
  \<open>examples/summarize/run.ts\<close>: \<open>set\<close> writes \<open>JSON.stringify(value, null, 2)\<close> to the file
  of the key and \<open>get\<close> returns \<open>JSON.parse\<close> of the file, or \<open>undefined\<close> when there is
  none; the store holds what the file of each key parses to (one file per key). What
  \<open>get\<close> returns is not what \<open>set\<close> was given: the round trip through JSON drops the
  entries of an object whose value is \<open>undefined\<close> and turns \<open>undefined\<close> in an array into
  \<open>null\<close>; \<open>JSON.stringify(undefined)\<close> is \<open>undefined\<close>, which \<open>writeFile\<close> refuses.
  \<open>dropCache\<close> implements the interface and retains nothing. \<open>codeunit_compare\<close> compares
  strings character by character, a stand-in for \<open>localeCompare\<close> in the examples.
\<close>

definition mapCache :: Cache where
  "mapCache = \<lparr> get = (\<lambda>k st. Inr (case st k of None \<Rightarrow> JUndefined | Some v \<Rightarrow> v)),
                set' = (\<lambda>k v st. Inr (st(k \<mapsto> v))) \<rparr>"




definition dropCache :: Cache where
  "dropCache = \<lparr> get = (\<lambda>k st. Inr JUndefined), set' = (\<lambda>k v st. Inr st) \<rparr>"

definition codeunit_compare :: "string \<Rightarrow> string \<Rightarrow> int" where
  "codeunit_compare a b = (if a < b then - 1 else if a = b then 0 else 1)"

text \<open>Examples: a platform, requests, a context with a cache, two responders, worlds.\<close>

definition ex_platform :: Platform where
  "ex_platform = \<lparr> localeCompare = codeunit_compare,
                    JSON_parse = (\<lambda>s. if s = ''42'' then Some (JNum 42) else None) \<rparr>"

definition ex_args :: LLMGenerateArgs where
  "ex_args = \<lparr> model = ''m'', messages = [], schema = None, temperature = None,
               maxTokens = None, tools = None \<rparr>"

definition ex_cache_ctx :: Ctx where
  "ex_cache_ctx = \<lparr> Ctx.runId = 0, spanId = 1,
                    trace = \<lparr> Trace.runId = 0, spanId = 1, parentSpanId = None \<rparr>,
                    cache = Some mapCache \<rparr>"


definition ex_drop_ctx :: Ctx where
  "ex_drop_ctx = ex_cache_ctx\<lparr> cache := Some dropCache \<rparr>"


definition static_responder :: "string \<Rightarrow> LLMResponder" where
  "static_responder response args = Inr \<lparr> raw = response, tokens = JUndefined, costUsd = JUndefined \<rparr>"


definition ex_args_schema :: LLMGenerateArgs where
  "ex_args_schema = ex_args\<lparr> schema := Some nonempty_string \<rparr>"

definition hi_response :: LLMResponse where
  "hi_response = \<lparr> raw = ''hi'', tokens = JUndefined, costUsd = JUndefined \<rparr>"

section \<open>What the cache key is compared with\<close>

text \<open>
  The object keys of a value, at any nesting level; two values that are structurally
  equal up to the order of the keys of their objects, at any nesting level (an object
  has each key once).
\<close>

fun all_keys :: "jsval \<Rightarrow> string set" where
  "all_keys (JArr vs) = (\<Union>v \<in> set vs. all_keys v)"
| "all_keys (JObj es) = fst ` set es \<union> (\<Union>e \<in> set es. all_keys (snd e))"
| "all_keys _ = {}"

inductive key_perm :: "jsval \<Rightarrow> jsval \<Rightarrow> bool" where
  same: "key_perm v v"
| arr: "list_all2 key_perm xs ys \<Longrightarrow> key_perm (JArr xs) (JArr ys)"
| obj: "distinct (map fst es) \<Longrightarrow> distinct (map fst fs) \<Longrightarrow> fst ` set es = fst ` set fs \<Longrightarrow>
        (\<forall>k v w. (k, v) \<in> set es \<longrightarrow> (k, w) \<in> set fs \<longrightarrow> key_perm v w) \<Longrightarrow>
        key_perm (JObj es) (JObj fs)"

text \<open>
  Two properties a comparator may have: it is consistent (its sign flips with its
  arguments, and \<open>\<le> 0\<close> is transitive), and it ties no two different keys of a set.
  \<open>localeCompare\<close> does tie different strings, see \<open>collation_compare\<close> below.
\<close>

definition consistent_comparator :: "(string \<Rightarrow> string \<Rightarrow> int) \<Rightarrow> bool" where
  "consistent_comparator cmp =
     ((\<forall>a b. (cmp a b < 0) = (cmp b a > 0)) \<and>
      (\<forall>a b c. cmp a b \<le> 0 \<longrightarrow> cmp b c \<le> 0 \<longrightarrow> cmp a c \<le> 0))"

definition untied :: "(string \<Rightarrow> string \<Rightarrow> int) \<Rightarrow> string set \<Rightarrow> bool" where
  "untied cmp K = (\<forall>a \<in> K. \<forall>b \<in> K. cmp a b = 0 \<longrightarrow> a = b)"

text \<open>An entry of an object with its value rendered.\<close>

definition render_entry :: "(string \<Rightarrow> string \<Rightarrow> int) \<Rightarrow> string \<times> jsval \<Rightarrow> string \<times> string" where
  "render_entry cmp e =
     (fst e, case stableStringify cmp (snd e) of None \<Rightarrow> ''undefined'' | Some s \<Rightarrow> s)"

text \<open>Two requests that differ in the order of keys and in an unset temperature.\<close>

definition ex_request_a :: LLMGenerateArgs where
  "ex_request_a =
     \<lparr> model = ''m'',
       messages = [JObj [(''role'', JStr ''user''), (''content'', JStr ''hi'')]],
       schema = None, temperature = None, maxTokens = None,
       tools = Some [JObj [(''name'', JStr ''t''),
                           (''args'', JObj [(''y'', JNum 1), (''x'', JNull)])]] \<rparr>"

definition ex_request_b :: LLMGenerateArgs where
  "ex_request_b =
     \<lparr> model = ''m'',
       messages = [JObj [(''content'', JStr ''hi''), (''role'', JStr ''user'')]],
       schema = None, temperature = Some 0, maxTokens = None,
       tools = Some [JObj [(''args'', JObj [(''x'', JNull), (''y'', JNum 1)]),
                           (''name'', JStr ''t'')]] \<rparr>"

text \<open>
  \<open>localeCompare\<close> compares by the collation of the locale, not by code units. In the
  default collation the control characters U+0000 to U+0008, U+000E to U+001F and
  U+007F to U+009F are ignored, so that \<open>"a".localeCompare("a\u0001")\<close> is 0.
  \<open>collation_compare\<close> compares what is left of two strings without these characters,
  code unit by code unit: it agrees with \<open>localeCompare\<close> on the keys of the requests
  below (lower-case ASCII letters and U+0001). \<open>key_a1\<close> is the key \<open>"a\u0001"\<close>.
\<close>

definition ignorable :: "char \<Rightarrow> bool" where
  "ignorable c = (let n = (of_char c :: nat) in n < 9 \<or> (14 \<le> n \<and> n < 32) \<or> (127 \<le> n \<and> n < 160))"

definition collation_compare :: "string \<Rightarrow> string \<Rightarrow> int" where
  "collation_compare a b =
     codeunit_compare (filter (\<lambda>c. \<not> ignorable c) a) (filter (\<lambda>c. \<not> ignorable c) b)"

definition collation_platform :: Platform where
  "collation_platform = \<lparr> localeCompare = collation_compare, JSON_parse = (\<lambda>s. None) \<rparr>"

definition key_a1 :: string where
  "key_a1 = [CHR ''a'', CHR 0x01]"

text \<open>Two requests that differ only in the order of the two keys of their one tool.\<close>

definition ex_tied_a :: LLMGenerateArgs where
  "ex_tied_a =
     \<lparr> model = ''m'', messages = [], schema = None, temperature = None, maxTokens = None,
       tools = Some [JObj [(''a'', JNum 1), (key_a1, JNum 2)]] \<rparr>"

definition ex_tied_b :: LLMGenerateArgs where
  "ex_tied_b =
     \<lparr> model = ''m'', messages = [], schema = None, temperature = None, maxTokens = None,
       tools = Some [JObj [(key_a1, JNum 2), (''a'', JNum 1)]] \<rparr>"

section \<open>Properties of the evaluation harness\<close>

lemma obj_get_obj_set: "obj_get (obj_set ob k v) k' = (if k' = k then Some v else obj_get ob k')"
  by (induction ob) auto

lemma keys_obj_set: "fst ` set (obj_set ob k v) = insert k (fst ` set ob)"
  by (induction ob) (force split: if_splits)+

lemma distinct_obj_set: "distinct (map fst ob) \<Longrightarrow> distinct (map fst (obj_set ob k v))"
proof (induction ob)
  case Nil
  then show ?case by simp
next
  case (Cons p ps)
  obtain k' v' where p: "p = (k', v')" by (cases p)
  have "k' \<noteq> k \<Longrightarrow> k' \<notin> fst ` set ps \<Longrightarrow> k' \<notin> fst ` set (obj_set ps k v)"
    by (simp add: keys_obj_set)
  with Cons p show ?case by auto
qed

lemma set_obj_set: "set (obj_set ob k v) \<subseteq> insert (k, v) (set ob)"
  by (induction ob) (auto split: if_splits)

lemma obj_get_Some_mem: "obj_get ob k = Some v \<Longrightarrow> (k, v) \<in> set ob"
  by (induction ob) (auto split: if_splits)

lemma agg_ok_obj_set: "agg_ok ag \<Longrightarrow> vs \<noteq> [] \<Longrightarrow> agg_ok (obj_set ag k vs)"
  unfolding agg_ok_def using set_obj_set[of ag k vs] distinct_obj_set[of ag k vs] by auto

lemma agg_values_obj_set:
  "agg_values (obj_set ag k vs) k' = (if k' = k then vs else agg_values ag k')"
  by (simp add: agg_values_def obj_get_obj_set)

lemma record_metrics_sound:
  "record_metrics es (ag, m) = Inr (ag', m') \<Longrightarrow> agg_ok ag \<Longrightarrow>
   agg_ok ag' \<and>
   agg_values ag' k = agg_values ag k @ metric_values es k \<and>
   obj_get m' k = (if metric_values es k = [] then obj_get m k else Some (last (metric_values es k)))"
proof (induction es arbitrary: ag m)
  case Nil
  then show ?case by (simp add: metric_values_def)
next
  case (Cons e es)
  obtain k0 v0 where e: "e = (k0, v0)" by (cases e)
  let ?ag1 = "obj_set ag k0 (agg_values ag k0 @ [v0])"
  let ?m1 = "obj_set m k0 v0"
  from Cons.prems(1) e have rec: "record_metrics es (?ag1, ?m1) = Inr (ag', m')"
    by (auto simp: agg_values_def split: option.splits if_splits)
  have ok1: "agg_ok ?ag1" using Cons.prems(2) by (rule agg_ok_obj_set) simp
  note IH = Cons.IH[OF rec ok1]
  have v1: "agg_values ?ag1 k = agg_values ag k @ metric_values [e] k"
    by (simp add: agg_values_obj_set e metric_values_def)
  have mv: "metric_values (e # es) k = metric_values [e] k @ metric_values es k"
    by (simp add: metric_values_def)
  have g1: "obj_get ?m1 k = (if metric_values [e] k = [] then obj_get m k else Some (last (metric_values [e] k)))"
    by (simp add: obj_get_obj_set e metric_values_def)
  show ?case using IH v1 g1 by (auto simp: mv)
qed

text \<open>A name found in \<open>Object.prototype\<close> makes the recording fail.\<close>

lemma record_metrics_prototype_name:
  "k \<in> set Object_prototype_names \<Longrightarrow> obj_get ag k = None \<Longrightarrow>
   record_metrics ((k, v) # es) (ag, m) = Inl (OtherError ''aggregates[k].push is not a function'')"
  by simp

lemma judged_values_Cons:
  "judged_values (j # js) c out k =
     metric_values (Score.metrics (j (Case.input c) out (Case.expected c))) k @ judged_values js c out k"
  by (simp add: judged_values_def)

lemma run_judges_sound:
  "run_judges js c out (ag, m, ns, arts) = Inr (ag', m', ns', arts') \<Longrightarrow> agg_ok ag \<Longrightarrow>
   agg_ok ag' \<and>
   agg_values ag' k = agg_values ag k @ judged_values js c out k \<and>
   obj_get m' k = (if judged_values js c out k = [] then obj_get m k
                   else Some (last (judged_values js c out k)))"
proof (induction js arbitrary: ag m ns arts)
  case Nil
  then show ?case by (simp add: judged_values_def)
next
  case (Cons j js)
  let ?es = "Score.metrics (j (Case.input c) out (Case.expected c))"
  from Cons.prems(1) obtain ag1 m1 where rm: "record_metrics ?es (ag, m) = Inr (ag1, m1)"
    by (cases "record_metrics ?es (ag, m)") (auto simp: Let_def)
  from record_metrics_sound[OF rm Cons.prems(2), of k]
  have ok1: "agg_ok ag1"
    and v1: "agg_values ag1 k = agg_values ag k @ metric_values ?es k"
    and g1: "obj_get m1 k = (if metric_values ?es k = [] then obj_get m k
                             else Some (last (metric_values ?es k)))"
    by simp_all
  from Cons.prems(1) rm obtain ns1 arts1 where
    rest: "run_judges js c out (ag1, m1, ns1, arts1) = Inr (ag', m', ns', arts')"
    by (simp add: Let_def)
  from Cons.IH[OF rest ok1] v1 g1 show ?case
    by (auto simp: judged_values_Cons)
qed

lemma all_values_Cons:
  "all_values js (c # cs) (out # outs) k = judged_values js c out k @ all_values js cs outs k"
  by (simp add: all_values_def)

lemma all_values_Nil [simp]: "all_values js [] outs k = []"
  by (simp add: all_values_def)

lemma run_cases_sound:
  "run_cases rt tg js cs (done, ag) s = (Inr (done', ag'), s') \<Longrightarrow> agg_ok ag \<Longrightarrow>
   agg_ok ag' \<and>
   length (run_outputs rt tg cs s) = length cs \<and>
   agg_values ag' k = agg_values ag k @ all_values js cs (run_outputs rt tg cs s) k \<and>
   (\<exists>rest. done' = done @ rest \<and> length rest = length cs \<and>
      (\<forall>i < length cs.
         EvalCaseResult.id' (rest ! i) = Case.id' (cs ! i) \<and>
         obj_get (EvalCaseResult.metrics (rest ! i)) k =
           (if judged_values js (cs ! i) (run_outputs rt tg cs s ! i) k = [] then None
            else Some (last (judged_values js (cs ! i) (run_outputs rt tg cs s ! i) k)))))"
proof (induction cs arbitrary: "done" ag s)
  case Nil
  then show ?case by simp
next
  case (Cons c cs)
  from Cons.prems(1) obtain out s1 where r1: "rt tg (Case.input c) s = (Inr out, s1)"
    by (cases "rt tg (Case.input c) s") (auto split: sum.splits)
  from Cons.prems(1) r1 obtain ag1 m1 ns1 arts1 where
    rj: "run_judges js c out (ag, [], [], []) = Inr (ag1, m1, ns1, arts1)"
    by (cases "run_judges js c out (ag, [], [], [])") auto
  let ?res = "\<lparr> EvalCaseResult.id' = Case.id' c, metrics = m1,
                 case_notes = (if ns1 = [] then None else Some ns1),
                 artifacts = (if arts1 = [] then None else Some arts1) \<rparr>"
  from Cons.prems(1) r1 rj
  have rest: "run_cases rt tg js cs (done @ [?res], ag1) s1 = (Inr (done', ag'), s')"
    by simp
  from run_judges_sound[OF rj Cons.prems(2), of k]
  have ok1: "agg_ok ag1"
    and v1: "agg_values ag1 k = agg_values ag k @ judged_values js c out k"
    and g1: "obj_get m1 k = (if judged_values js c out k = [] then None
                             else Some (last (judged_values js c out k)))"
    by simp_all
  have outs: "run_outputs rt tg (c # cs) s = out # run_outputs rt tg cs s1"
    using r1 by simp
  from Cons.IH[OF rest ok1] obtain rest' where
    ok': "agg_ok ag'"
    and len: "length (run_outputs rt tg cs s1) = length cs"
    and vals: "agg_values ag' k = agg_values ag1 k @ all_values js cs (run_outputs rt tg cs s1) k"
    and d: "done' = (done @ [?res]) @ rest'"
    and lr: "length rest' = length cs"
    and per: "\<forall>i < length cs.
         EvalCaseResult.id' (rest' ! i) = Case.id' (cs ! i) \<and>
         obj_get (EvalCaseResult.metrics (rest' ! i)) k =
           (if judged_values js (cs ! i) (run_outputs rt tg cs s1 ! i) k = [] then None
            else Some (last (judged_values js (cs ! i) (run_outputs rt tg cs s1 ! i) k)))"
    by blast
  have per': "\<forall>i < length (c # cs).
         EvalCaseResult.id' ((?res # rest') ! i) = Case.id' ((c # cs) ! i) \<and>
         obj_get (EvalCaseResult.metrics ((?res # rest') ! i)) k =
           (if judged_values js ((c # cs) ! i) ((out # run_outputs rt tg cs s1) ! i) k = [] then None
            else Some (last (judged_values js ((c # cs) ! i) ((out # run_outputs rt tg cs s1) ! i) k)))"
  proof (intro allI impI)
    fix i assume "i < length (c # cs)"
    then show "EvalCaseResult.id' ((?res # rest') ! i) = Case.id' ((c # cs) ! i) \<and>
         obj_get (EvalCaseResult.metrics ((?res # rest') ! i)) k =
           (if judged_values js ((c # cs) ! i) ((out # run_outputs rt tg cs s1) ! i) k = [] then None
            else Some (last (judged_values js ((c # cs) ! i) ((out # run_outputs rt tg cs s1) ! i) k)))"
      using per g1 by (cases i) simp_all
  qed
  have "done' = done @ (?res # rest')" using d by simp
  moreover have "length (?res # rest') = length (c # cs)" using lr by simp
  ultimately have ex: "\<exists>rest. done' = done @ rest \<and> length rest = length (c # cs) \<and>
      (\<forall>i < length (c # cs).
         EvalCaseResult.id' (rest ! i) = Case.id' ((c # cs) ! i) \<and>
         obj_get (EvalCaseResult.metrics (rest ! i)) k =
           (if judged_values js ((c # cs) ! i) (run_outputs rt tg (c # cs) s ! i) k = [] then None
            else Some (last (judged_values js ((c # cs) ! i) (run_outputs rt tg (c # cs) s ! i) k))))"
    using per' unfolding outs by blast
  have "agg_values ag' k = agg_values ag k @ all_values js (c # cs) (run_outputs rt tg (c # cs) s) k"
    unfolding outs all_values_Cons using vals v1 by simp
  moreover have "length (run_outputs rt tg (c # cs) s) = length (c # cs)"
    unfolding outs using len by simp
  ultimately show ?case using ok' ex by blast
qed

lemma obj_get_None_iff: "obj_get ob k = None \<longleftrightarrow> k \<notin> fst ` set ob"
  by (induction ob) (auto split: if_splits)

lemma summarize_fold:
  "distinct (map fst ag) \<Longrightarrow>
   obj_get (foldl (\<lambda>acc (k, vs). obj_set acc k (mean A vs)) acc ag) k =
     (case obj_get ag k of None \<Rightarrow> obj_get acc k | Some vs \<Rightarrow> Some (mean A vs))"
proof (induction ag arbitrary: acc)
  case Nil
  then show ?case by simp
next
  case (Cons e ag)
  obtain k0 vs0 where e: "e = (k0, vs0)" by (cases e)
  from Cons.prems e have d: "distinct (map fst ag)" and nk: "k0 \<notin> fst ` set ag" by auto
  from nk have none: "obj_get ag k0 = None" by (simp add: obj_get_None_iff)
  show ?case using Cons.IH[OF d, of "obj_set acc k0 (mean A vs0)"] none
    by (auto simp: e obj_get_obj_set split: option.splits)
qed

lemma obj_get_summarize:
  "distinct (map fst ag) \<Longrightarrow> obj_get (summarize A ag) k = map_option (mean A) (obj_get ag k)"
  by (simp add: summarize_def summarize_fold split: option.splits)

lemma agg_ok_Nil [simp]: "agg_ok []"
  by (simp add: agg_ok_def)

lemma agg_ok_get: "agg_ok ag \<Longrightarrow> obj_get ag k = (if agg_values ag k = [] then None else Some (agg_values ag k))"
  unfolding agg_ok_def agg_values_def
  by (force split: option.splits dest: obj_get_Some_mem)

lemma runEval_result:
  assumes "runEval A spec runtime s = (Inr r, s')"
  shows "\<exists>cs ag. run_cases runtime (EvalSpec.target spec) (judges spec) (Dataset.cases (EvalSpec.dataset spec)) ([], []) s
                  = (Inr (cs, ag), s') \<and>
           EvalRunResult.cases r = cs \<and> aggregates r = summarize A ag \<and>
           passed r = list_all (meets A (summarize A ag)) (thresholds spec)"
  using assms unfolding runEval_def
  by (auto split: prod.splits sum.splits simp: Let_def)

lemma aggregates_lookup:
  assumes "runEval A spec runtime s = (Inr r, s')"
  shows "obj_get (aggregates r) k =
     (let vs = all_values (judges spec) (Dataset.cases (EvalSpec.dataset spec))
                 (run_outputs runtime (EvalSpec.target spec) (Dataset.cases (EvalSpec.dataset spec)) s) k
      in if vs = [] then None else Some (mean A vs))"
proof -
  from runEval_result[OF assms] obtain cs ag where
    rc: "run_cases runtime (EvalSpec.target spec) (judges spec) (Dataset.cases (EvalSpec.dataset spec)) ([], []) s
           = (Inr (cs, ag), s')"
    and a: "aggregates r = summarize A ag"
    by blast
  from run_cases_sound[OF rc agg_ok_Nil, of k]
  have ok: "agg_ok ag"
    and vals: "agg_values ag k = all_values (judges spec) (Dataset.cases (EvalSpec.dataset spec))
                 (run_outputs runtime (EvalSpec.target spec) (Dataset.cases (EvalSpec.dataset spec)) s) k"
    by (simp_all add: agg_values_def)
  from ok have d: "distinct (map fst ag)" by (simp add: agg_ok_def)
  show ?thesis
    unfolding a obj_get_summarize[OF d] agg_ok_get[OF ok] vals[symmetric]
    by (simp add: Let_def)
qed

lemma all_values_singletons:
  "length outs = length cs \<Longrightarrow> length vs = length cs \<Longrightarrow>
   (\<forall>i < length cs. judged_values js (cs ! i) (outs ! i) k = [vs ! i]) \<Longrightarrow>
   all_values js cs outs k = vs"
proof (induction cs arbitrary: outs vs)
  case Nil
  then show ?case by simp
next
  case (Cons c cs)
  from Cons.prems(1) obtain out outs' where o: "outs = out # outs'" by (cases outs) auto
  from Cons.prems(2) obtain v vs' where v: "vs = v # vs'" by (cases vs) auto
  from Cons.prems(3) o v have h: "judged_values js c out k = [v]" by auto
  have "\<forall>i < length cs. judged_values js (cs ! i) (outs' ! i) k = [vs' ! i]"
  proof (intro allI impI)
    fix i assume "i < length cs"
    then have "Suc i < length (c # cs)" by simp
    with Cons.prems(3) have "judged_values js ((c # cs) ! Suc i) (outs ! Suc i) k = [vs ! Suc i]"
      by blast
    then show "judged_values js (cs ! i) (outs' ! i) k = [vs' ! i]" by (simp add: o v)
  qed
  with Cons.IH[of outs' vs'] Cons.prems(1,2) o v have "all_values js cs outs' k = vs'" by simp
  with h show ?case by (simp add: o v all_values_Cons)
qed

text \<open>
  Without rounding, \<open>mean\<close> is the arithmetic mean.
\<close>

lemma foldl_plus_sum_list: "foldl (+) a vs = a + sum_list (vs :: real list)"
  by (induction vs arbitrary: a) simp_all

lemma mean_exact_arith: "mean exact_arith vs = sum_list vs / real (length vs)"
  by (simp add: mean_def exact_arith_def foldl_plus_sum_list)

text \<open>
  C7, as amended: the aggregate reported for a metric name is computed from all values
  the judges emitted for that name over the cases, in the order in which they were
  recorded: they are summed from \<open>0\<close> with the addition of the platform, and the sum is
  divided by their number with its division. A case that emits no value for the name
  adds nothing to the list, and a name with no value at all has no aggregate. In
  particular, when every case emits exactly one value for the name, \<open>vs ! i\<close> for case
  \<open>i\<close>, the aggregate is that sum of \<open>vs\<close> divided by their number.
\<close>

theorem aggregate_is_running_mean:
  assumes "runEval A spec runtime s = (Inr r, s')"
  shows "obj_get (aggregates r) k =
     (let vs = all_values (judges spec) (Dataset.cases (EvalSpec.dataset spec))
                 (run_outputs runtime (EvalSpec.target spec) (Dataset.cases (EvalSpec.dataset spec)) s) k
      in if vs = [] then None
         else Some (num_div A (foldl (num_add A) (num_zero A) vs) (num_of_nat A (length vs)))) \<and>
     (\<forall>vs. vs \<noteq> [] \<longrightarrow> length vs = length (Dataset.cases (EvalSpec.dataset spec)) \<longrightarrow>
        (\<forall>i < length (Dataset.cases (EvalSpec.dataset spec)).
           judged_values (judges spec) (Dataset.cases (EvalSpec.dataset spec) ! i)
             (run_outputs runtime (EvalSpec.target spec) (Dataset.cases (EvalSpec.dataset spec)) s ! i) k
           = [vs ! i]) \<longrightarrow>
        obj_get (aggregates r) k =
          Some (num_div A (foldl (num_add A) (num_zero A) vs) (num_of_nat A (length vs))))"
proof (intro conjI allI impI)
  show "obj_get (aggregates r) k =
     (let vs = all_values (judges spec) (Dataset.cases (EvalSpec.dataset spec))
                 (run_outputs runtime (EvalSpec.target spec) (Dataset.cases (EvalSpec.dataset spec)) s) k
      in if vs = [] then None
         else Some (num_div A (foldl (num_add A) (num_zero A) vs) (num_of_nat A (length vs))))"
    using aggregates_lookup[OF assms, of k] unfolding mean_def by simp
next
  fix vs :: "'a list"
  let ?cs = "Dataset.cases (EvalSpec.dataset spec)"
  let ?outs = "run_outputs runtime (EvalSpec.target spec) ?cs s"
  assume ne: "vs \<noteq> []" and len: "length vs = length ?cs"
    and one: "\<forall>i < length ?cs. judged_values (judges spec) (?cs ! i) (?outs ! i) k = [vs ! i]"
  have lo: "length ?outs = length ?cs"
    using runEval_result[OF assms] run_cases_sound[of runtime "EvalSpec.target spec" "judges spec" ?cs "[]" "[]" s _ _ s' k]
    by auto
  from all_values_singletons[OF lo len one]
  have "all_values (judges spec) ?cs ?outs k = vs" .
  with aggregates_lookup[OF assms, of k] ne
  show "obj_get (aggregates r) k =
          Some (num_div A (foldl (num_add A) (num_zero A) vs) (num_of_nat A (length vs)))"
    by (simp add: Let_def mean_def)
qed

lemma all_values_split:
  "i < length cs \<Longrightarrow> length outs = length cs \<Longrightarrow>
   all_values js cs outs k =
     all_values js (take i cs) (take i outs) k @
     judged_values js (cs ! i) (outs ! i) k @
     all_values js (drop (Suc i) cs) (drop (Suc i) outs) k"
proof -
  assume i: "i < length cs" and l: "length outs = length cs"
  have z: "zip cs outs = zip (take i cs) (take i outs) @ (cs ! i, outs ! i) # zip (drop (Suc i) cs) (drop (Suc i) outs)"
    using i l by (metis id_take_nth_drop length_zip min.idem nth_zip take_zip drop_zip)
  show ?thesis unfolding all_values_def by (subst z) simp
qed

lemma judged_values_append:
  "judged_values (js1 @ js2) c out k = judged_values js1 c out k @ judged_values js2 c out k"
  by (simp add: judged_values_def)

text \<open>
  C6: the flag \<open>passed\<close> of a result is true exactly when every metric name of the
  threshold map has an aggregate that is defined and at least its threshold (by the
  \<open>>=\<close> of the platform); a threshold metric with no aggregate makes the right-hand
  side, and so \<open>passed\<close>, false.
\<close>

theorem passed_iff_thresholds_met:
  assumes "runEval A spec runtime s = (Inr r, s')"
  shows "passed r = (\<forall>mt \<in> set (thresholds spec).
           \<exists>a. obj_get (aggregates r) (fst mt) = Some a \<and> num_ge A a (snd mt)) \<and>
         ((\<exists>mt \<in> set (thresholds spec). obj_get (aggregates r) (fst mt) = None) \<longrightarrow> \<not> passed r)"
proof -
  from runEval_result[OF assms] obtain ag where
    a: "aggregates r = summarize A ag"
    and p: "passed r = list_all (meets A (summarize A ag)) (thresholds spec)"
    by blast
  have "passed r = (\<forall>mt \<in> set (thresholds spec).
           \<exists>a. obj_get (aggregates r) (fst mt) = Some a \<and> num_ge A a (snd mt))"
    unfolding p a list_all_iff meets_def by (auto split: option.splits)
  then show ?thesis by auto
qed

lemma case_metric_last:
  assumes run: "runEval A spec runtime s = (Inr r, s')"
    and i: "i < length (Dataset.cases (EvalSpec.dataset spec))"
  shows "obj_get (EvalCaseResult.metrics (EvalRunResult.cases r ! i)) k =
     (let vs = judged_values (judges spec) (Dataset.cases (EvalSpec.dataset spec) ! i)
                 (run_outputs runtime (EvalSpec.target spec) (Dataset.cases (EvalSpec.dataset spec)) s ! i) k
      in if vs = [] then None else Some (last vs))"
    and "length (run_outputs runtime (EvalSpec.target spec) (Dataset.cases (EvalSpec.dataset spec)) s)
          = length (Dataset.cases (EvalSpec.dataset spec))"
proof -
  from runEval_result[OF run] obtain cs ag where
    rc: "run_cases runtime (EvalSpec.target spec) (judges spec) (Dataset.cases (EvalSpec.dataset spec)) ([], []) s
           = (Inr (cs, ag), s')"
    and c: "EvalRunResult.cases r = cs"
    by blast
  from run_cases_sound[OF rc agg_ok_Nil, of k] i
  show "obj_get (EvalCaseResult.metrics (EvalRunResult.cases r ! i)) k =
     (let vs = judged_values (judges spec) (Dataset.cases (EvalSpec.dataset spec) ! i)
                 (run_outputs runtime (EvalSpec.target spec) (Dataset.cases (EvalSpec.dataset spec)) s ! i) k
      in if vs = [] then None else Some (last vs))"
    unfolding c by (auto simp: Let_def)
  from run_cases_sound[OF rc agg_ok_Nil, of k]
  show "length (run_outputs runtime (EvalSpec.target spec) (Dataset.cases (EvalSpec.dataset spec)) s)
          = length (Dataset.cases (EvalSpec.dataset spec))"
    by simp
qed

text \<open>
  C10: when two judges \<open>j1\<close> and \<open>j2\<close> (in this order, no later judge emitting the
  name) emit the same metric name for a case, the metrics of the case hold the value of
  \<open>j2\<close>, while both values were appended to the running list of the name: the
  aggregate is the \<open>mean\<close> of a list that holds them both for that case.
\<close>

theorem later_judge_wins_both_counted:
  assumes run: "runEval A spec runtime s = (Inr r, s')"
    and i: "i < length (Dataset.cases (EvalSpec.dataset spec))"
    and c: "c = Dataset.cases (EvalSpec.dataset spec) ! i"
    and out: "out = run_outputs runtime (EvalSpec.target spec) (Dataset.cases (EvalSpec.dataset spec)) s ! i"
    and js: "judges spec = js1 @ [j1] @ js2 @ [j2] @ js3"
    and e1: "metric_values (Score.metrics (j1 (Case.input c) out (Case.expected c))) k = [v1]"
    and e2: "metric_values (Score.metrics (j2 (Case.input c) out (Case.expected c))) k = [v2]"
    and e3: "judged_values js3 c out k = []"
  shows "obj_get (EvalCaseResult.metrics (EvalRunResult.cases r ! i)) k = Some v2 \<and>
         (let cs = Dataset.cases (EvalSpec.dataset spec);
              outs = run_outputs runtime (EvalSpec.target spec) cs s;
              vs = all_values (judges spec) (take i cs) (take i outs) k @
                   (judged_values js1 c out k @ [v1] @ judged_values js2 c out k @ [v2]) @
                   all_values (judges spec) (drop (Suc i) cs) (drop (Suc i) outs) k
          in obj_get (aggregates r) k = Some (mean A vs))"
proof -
  let ?cs = "Dataset.cases (EvalSpec.dataset spec)"
  let ?outs = "run_outputs runtime (EvalSpec.target spec) ?cs s"
  have jv: "judged_values (judges spec) c out k =
              judged_values js1 c out k @ [v1] @ judged_values js2 c out k @ [v2]"
    unfolding js judged_values_append using e1 e2 e3
    by (simp add: judged_values_def)
  from case_metric_last(1)[OF run i, of k]
  have m: "obj_get (EvalCaseResult.metrics (EvalRunResult.cases r ! i)) k = Some v2"
    unfolding c[symmetric] out[symmetric] jv by (simp add: Let_def)
  have len: "length ?outs = length ?cs"
    by (rule case_metric_last(2)[OF run i])
  have sp: "all_values (judges spec) ?cs ?outs k =
          all_values (judges spec) (take i ?cs) (take i ?outs) k @
          (judged_values js1 c out k @ [v1] @ judged_values js2 c out k @ [v2]) @
          all_values (judges spec) (drop (Suc i) ?cs) (drop (Suc i) ?outs) k"
    using all_values_split[OF i len, of "judges spec" k]
    unfolding c[symmetric] out[symmetric] jv .
  have ne: "all_values (judges spec) ?cs ?outs k \<noteq> []"
    unfolding sp by simp
  from aggregates_lookup[OF run, of k] ne
  have "obj_get (aggregates r) k = Some (mean A (all_values (judges spec) ?cs ?outs k))"
    by (simp add: Let_def)
  then show ?thesis using m unfolding Let_def sp[symmetric] by simp
qed

lemma ex_run:
  "runEval double_arith (ex_spec ex_cases [ex_judge ''key_terms'' (1, -1) (1, 0)] (3, -2)) ex_runtime ()
     = (Inr ex_result, ())"
  by code_simp

lemma ex_run_collide:
  "runEval double_arith
     (ex_spec ex_cases [ex_judge ''key_terms'' (1, -2) (0, 0), ex_judge ''key_terms'' (1, 0) (1, 0)] (3, -2))
     ex_runtime ()
     = (Inr ex_result_collide, ())"
  by code_simp

lemma ex_run3:
  "runEval double_arith (ex_spec ex_cases3 [ex_judge ''key_terms'' (1, 0) (1, -53)] (3, -2)) ex_runtime ()
     = (Inr ex_result3, ())"
  by code_simp

text \<open>
  A metric named as a member of \<open>Object.prototype\<close> ends the evaluation with the
  TypeError of \<open>aggregates[k].push\<close>: no result is returned.
\<close>

lemma ex_run_prototype_name:
  "runEval double_arith (ex_spec ex_cases [ex_judge ''constructor'' (1, -1) (1, 0)] (3, -2)) ex_runtime ()
     = (Inl (OtherError ''aggregates[k].push is not a function''), ())"
  by code_simp

lemma ex_outputs: "run_outputs ex_runtime () ex_cases () = [JStr ''a'', JStr ''b'']"
  by (simp add: ex_cases_def ex_runtime_def)

theorem passed_iff_thresholds_met_witness:
  "runEval double_arith (ex_spec ex_cases [ex_judge ''key_terms'' (1, -1) (1, 0)] (3, -2)) ex_runtime ()
     = (Inr ex_result, ()) \<and>
   passed ex_result \<and>
   obj_get (aggregates ex_result) ''key_terms'' = Some (3, -2) \<and>
   num_ge double_arith (3, -2) (3, -2)"
proof -
  have ge: "num_ge double_arith (3, -2) (3, -2)"
    by (simp add: double_arith_def dbl_ge_def)
  from passed_iff_thresholds_met[OF ex_run, THEN conjunct1] ex_run ge
  show ?thesis by (simp add: ex_result_def)
qed

theorem aggregate_is_running_mean_witness:
  "runEval double_arith (ex_spec ex_cases [ex_judge ''key_terms'' (1, -1) (1, 0)] (3, -2)) ex_runtime ()
     = (Inr ex_result, ()) \<and>
   all_values [ex_judge ''key_terms'' (1, -1) (1, 0)] ex_cases (run_outputs ex_runtime () ex_cases ())
     ''key_terms'' = [(1, -1), (1, 0)] \<and>
   obj_get (aggregates ex_result) ''key_terms'' =
     Some (dbl_div (dbl_add (dbl_add (0, 0) (1, -1)) (1, 0)) (dbl_of_nat 2)) \<and>
   dbl_div (dbl_add (dbl_add (0, 0) (1, -1)) (1, 0)) (dbl_of_nat 2) = (3, -2)"
proof -
  let ?spec = "ex_spec ex_cases [ex_judge ''key_terms'' (1, -1) (1, 0)] (3, -2)"
  have sp: "judges ?spec = [ex_judge ''key_terms'' (1, -1) (1, 0)]"
    "Dataset.cases (EvalSpec.dataset ?spec) = ex_cases" "EvalSpec.target ?spec = ()"
    by (simp_all add: ex_spec_def)
  have vals: "all_values [ex_judge ''key_terms'' (1, -1) (1, 0)] ex_cases [JStr ''a'', JStr ''b''] ''key_terms''
               = [(1, -1), (1, 0)]"
    by (simp add: all_values_def judged_values_def metric_values_def ex_judge_def ex_cases_def)
  have q: "dbl_div (dbl_add (dbl_add (0, 0) (1, -1)) (1, 0)) (dbl_of_nat 2) = (3, -2)"
    by code_simp
  from aggregate_is_running_mean[OF ex_run, of "''key_terms''", THEN conjunct1]
  have "obj_get (aggregates ex_result) ''key_terms'' =
          Some (dbl_div (dbl_add (dbl_add (0, 0) (1, -1)) (1, 0)) (dbl_of_nat 2))"
    unfolding sp ex_outputs vals by (simp add: Let_def double_arith_def numeral_2_eq_2)
  with ex_run vals q show ?thesis by (simp add: ex_outputs)
qed

text \<open>
  C7, as stated, fails: for the values \<open>1\<close>, \<open>2 ^ -53\<close> and \<open>2 ^ -53\<close> the sum is rounded
  to \<open>1\<close> twice and the reported aggregate is the double nearest to \<open>1/3\<close>, which is not
  the arithmetic mean \<open>(1 + 2 ^ -53 + 2 ^ -53) / 3\<close> of the three values.
\<close>

theorem aggregate_is_not_exact_mean:
  "runEval double_arith (ex_spec ex_cases3 [ex_judge ''key_terms'' (1, 0) (1, -53)] (3, -2)) ex_runtime ()
     = (Inr ex_result3, ()) \<and>
   all_values [ex_judge ''key_terms'' (1, 0) (1, -53)] ex_cases3 (run_outputs ex_runtime () ex_cases3 ())
     ''key_terms'' = [(1, 0), (1, -53), (1, -53)] \<and>
   obj_get (aggregates ex_result3) ''key_terms'' = Some (6004799503160661, -54) \<and>
   dbl_val (6004799503160661, -54) \<noteq> (dbl_val (1, 0) + dbl_val (1, -53) + dbl_val (1, -53)) / 3"
proof -
  have vals: "all_values [ex_judge ''key_terms'' (1, 0) (1, -53)] ex_cases3
                (run_outputs ex_runtime () ex_cases3 ()) ''key_terms'' = [(1, 0), (1, -53), (1, -53)]"
    by (simp add: all_values_def judged_values_def metric_values_def ex_judge_def ex_cases3_def ex_runtime_def)
  have ne: "dbl_val (6004799503160661, -54) \<noteq> (dbl_val (1, 0) + dbl_val (1, -53) + dbl_val (1, -53)) / 3"
    by (simp add: dbl_val_def)
  from ex_run3 vals ne show ?thesis by (simp add: ex_result3_def)
qed

theorem later_judge_wins_both_counted_witness:
  "runEval double_arith
     (ex_spec ex_cases [ex_judge ''key_terms'' (1, -2) (0, 0), ex_judge ''key_terms'' (1, 0) (1, 0)] (3, -2))
     ex_runtime ()
     = (Inr ex_result_collide, ()) \<and>
   obj_get (EvalCaseResult.metrics (EvalRunResult.cases ex_result_collide ! 0)) ''key_terms'' = Some (1, 0) \<and>
   obj_get (aggregates ex_result_collide) ''key_terms'' =
     Some (mean double_arith [(1, -2), (1, 0), (0, 0), (1, 0)]) \<and>
   mean double_arith [(1, -2), (1, 0), (0, 0), (1, 0)] = (9, -4)"
proof -
  let ?j1 = "ex_judge ''key_terms'' (1, -2) (0, 0)"
  let ?j2 = "ex_judge ''key_terms'' (1, 0) (1, 0)"
  let ?spec = "ex_spec ex_cases [?j1, ?j2] (3, -2)"
  have i: "0 < length (Dataset.cases (EvalSpec.dataset ?spec))"
    by (simp add: ex_spec_def ex_cases_def)
  have c: "ex_cases ! 0 = Dataset.cases (EvalSpec.dataset ?spec) ! 0"
    by (simp add: ex_spec_def)
  have out: "JStr ''a'' = run_outputs ex_runtime (EvalSpec.target ?spec) (Dataset.cases (EvalSpec.dataset ?spec)) () ! 0"
    by (simp add: ex_spec_def ex_outputs)
  have js: "judges ?spec = [] @ [?j1] @ [] @ [?j2] @ []"
    by (simp add: ex_spec_def)
  have e1: "metric_values (Score.metrics (?j1 (Case.input (ex_cases ! 0)) (JStr ''a'')
              (Case.expected (ex_cases ! 0)))) ''key_terms'' = [(1, -2)]"
    by (simp add: metric_values_def ex_judge_def)
  have e2: "metric_values (Score.metrics (?j2 (Case.input (ex_cases ! 0)) (JStr ''a'')
              (Case.expected (ex_cases ! 0)))) ''key_terms'' = [(1, 0)]"
    by (simp add: metric_values_def ex_judge_def)
  have e3: "judged_values [] (ex_cases ! 0) (JStr ''a'') ''key_terms'' = []"
    by (simp add: judged_values_def)
  have rest: "all_values [?j1, ?j2] (drop (Suc 0) ex_cases) [JStr ''b''] ''key_terms'' = [(0, 0), (1, 0)]"
    by (simp add: all_values_def judged_values_def metric_values_def ex_judge_def ex_cases_def)
  have pre: "all_values [?j1, ?j2] [] [] ''key_terms'' = []"
    by (simp add: all_values_def)
  have q: "mean double_arith [(1, -2), (1, 0), (0, 0), (1, 0)] = (9, -4)"
    by code_simp
  note h = later_judge_wins_both_counted[OF ex_run_collide i c out js e1 e2 e3]
  from h have m: "obj_get (EvalCaseResult.metrics (EvalRunResult.cases ex_result_collide ! 0)) ''key_terms''
                    = Some (1, 0)"
    by blast
  from h[THEN conjunct2]
  have "obj_get (aggregates ex_result_collide) ''key_terms'' =
          Some (mean double_arith [(1, -2), (1, 0), (0, 0), (1, 0)])"
    by (simp add: Let_def ex_spec_def ex_outputs rest pre judged_values_def)
  with m q ex_run_collide show ?thesis by blast
qed

section \<open>Properties of the wrappers and of the orchestrator\<close>

lemma defineWorkflow_eq: "defineWorkflow = defineStep"
  by (rule ext) (simp add: defineWorkflow_def defineStep_def)

lemma Ctx_child_eq:
  "Ctx_child ctx nm w =
     (\<lparr> Ctx.runId = Ctx.runId ctx, spanId = next_uuid w,
        trace = \<lparr> Trace.runId = Trace.runId (trace ctx), spanId = next_uuid w,
                  parentSpanId = Some (Trace.spanId (trace ctx)) \<rparr>,
        cache = cache ctx \<rparr>,
      w\<lparr> next_uuid := next_uuid w + 1,
         events := events w @ [SpanStart (Trace.runId (trace ctx)) (next_uuid w) (Some (Trace.spanId (trace ctx))) nm] \<rparr>)"
  by (simp add: Ctx_child_def Trace_child_def randomUUID_def emit_def Let_def)

text \<open>
  C5: when the input of a wrapped step or workflow violates the input schema, the call
  fails with the validation error that carries the issues, the events it emits are the
  \<open>span_start\<close> of the child span and exactly one \<open>validation_error\<close> with direction
  input, and the result does not depend on the body: the body is never invoked.
\<close>

theorem invalid_input_never_reaches_body:
  assumes "safeParse (input step) inp = Inl issues"
  shows "run (defineStep step) ctx inp w =
           (Inl (ValidationError issues ''input validation failed''),
            w\<lparr> next_uuid := next_uuid w + 1,
               events := events w @
                 [SpanStart (Trace.runId (trace ctx)) (next_uuid w) (Some (Trace.spanId (trace ctx))) (name step),
                  ValidationErrorEv (Trace.runId (trace ctx)) (next_uuid w) DirInput issues] \<rparr>) \<and>
         run (defineStep (step\<lparr>run := body\<rparr>)) ctx inp w = run (defineStep step) ctx inp w \<and>
         run (defineWorkflow step) ctx inp w = run (defineStep step) ctx inp w"
  using assms
  by (simp add: defineWorkflow_eq defineStep_def Ctx_child_eq validateWithZod_def emit_def)

theorem invalid_input_never_reaches_body_witness:
  "safeParse (input ex_step) (JStr '''') = Inl (JArr [JStr ''too_small'']) \<and>
   run (defineStep ex_step) ex_ctx (JStr '''') w0 =
     (Inl (ValidationError (JArr [JStr ''too_small'']) ''input validation failed''),
      w0\<lparr> next_uuid := 3,
          events := [SpanStart 0 2 (Some 1) ''echo'',
                     ValidationErrorEv 0 2 DirInput (JArr [JStr ''too_small''])] \<rparr>) \<and>
   run (defineStep (ex_step\<lparr>run := run ex_failing\<rparr>)) ex_ctx (JStr '''') w0 =
     run (defineStep ex_step) ex_ctx (JStr '''') w0"
proof -
  have h: "safeParse (input ex_step) (JStr '''') = Inl (JArr [JStr ''too_small''])"
    by (simp add: ex_step_def nonempty_string_def)
  from invalid_input_never_reaches_body[OF h, where body = "run ex_failing" and ctx = ex_ctx and w = w0] h
  show ?thesis
    by (simp add: ex_ctx_def w0_def ex_step_def)
qed

text \<open>
  C1: a step whose input schema requires a non-empty string, called with the empty
  string. The wrapper emits \<open>span_start\<close> and \<open>validation_error\<close> and throws before
  its \<open>try\<close> block: no \<open>span_end\<close> for the child span is ever emitted, for
  \<open>defineStep\<close> and for \<open>defineWorkflow\<close> alike.
\<close>

theorem input_failure_leaves_span_open:
  "events (snd (run (defineStep ex_step) ex_ctx (JStr '''') w0)) =
     [SpanStart 0 2 (Some 1) ''echo'', ValidationErrorEv 0 2 DirInput (JArr [JStr ''too_small''])] \<and>
   filter (is_span_end 2) (events (snd (run (defineStep ex_step) ex_ctx (JStr '''') w0))) = [] \<and>
   events (snd (run (defineWorkflow ex_step) ex_ctx (JStr '''') w0)) =
     [SpanStart 0 2 (Some 1) ''echo'', ValidationErrorEv 0 2 DirInput (JArr [JStr ''too_small''])]"
  by (simp add: defineWorkflow_eq defineStep_def Ctx_child_eq validateWithZod_def emit_def
        ex_step_def nonempty_string_def ex_ctx_def w0_def)

lemma createRuntime_run_unfold:
  "createRuntime_run oc tg inp w =
     (case validateWithZod (input tg) inp DirInput (trace (run_ctx oc w)) (next_uuid w + 1) (run_started tg w) of
        (Inl err, w4) \<Rightarrow> run_catch (next_uuid w) (next_uuid w + 1) (name tg) err w4
      | (Inr validatedInput, w4) \<Rightarrow>
          (case run tg (run_ctx oc w) validatedInput w4 of
             (Inl err, w5) \<Rightarrow> run_catch (next_uuid w) (next_uuid w + 1) (name tg) err w5
           | (Inr out, w5) \<Rightarrow>
               (case validateWithZod (output' tg) out DirOutput (trace (run_ctx oc w)) (next_uuid w + 1) w5 of
                  (Inl err, w6) \<Rightarrow> run_catch (next_uuid w) (next_uuid w + 1) (name tg) err w6
                | (Inr validatedOutput, w6) \<Rightarrow>
                    (Inr (validatedOutput,
                          \<lparr> RunRecord.runId = next_uuid w, target = name tg, status = success \<rparr>),
                     close (emit (SpanEnd (next_uuid w) (next_uuid w + 1) None (name tg) None) w6)))))"
  by (simp add: createRuntime_run_def randomUUID_def run_started_def run_ctx_def Let_def
        split: prod.split sum.split)

lemma events_run_started:
  "events (run_started tg w) = events w @ [SpanStart (next_uuid w) (next_uuid w + 1) None (name tg)]"
  "next_uuid (run_started tg w) = next_uuid w + 2"
  by (simp_all add: run_started_def emit_def)

lemma run_ctx_trace [simp]: "Trace.runId (trace (run_ctx oc w)) = next_uuid w"
  by (simp add: run_ctx_def)

lemma emitted_append [simp]: "events w' = events w @ evs \<Longrightarrow> emitted w w' = evs"
  by (simp add: emitted_def)

lemma run_catch_eq:
  "run_catch rid rootId nm err w =
     (Inl err, w\<lparr> events := events w @ [SpanEnd rid rootId None nm (Some (err_message err))],
                  sink_closed := True \<rparr>)"
  by (simp add: run_catch_def close_def emit_def)

lemma no_root_end:
  assumes "\<forall>e \<in> set evs. \<forall>sid. is_span_end sid e \<longrightarrow> n + 2 \<le> sid"
  shows "filter (is_span_end (n + 1)) evs = []"
proof -
  have "\<forall>e \<in> set evs. \<not> is_span_end (n + 1) e"
  proof
    fix e assume "e \<in> set evs"
    with assms have "is_span_end (n + 1) e \<longrightarrow> n + 2 \<le> n + 1" by blast
    then show "\<not> is_span_end (n + 1) e" by simp
  qed
  then show ?thesis by (simp add: filter_empty_conv)
qed

text \<open>
  What the \<open>catch\<close> block of \<open>run\<close> does achieve. When the call chain of a run throws
  \<open>e\<close> (input validation, the target or anything nested in it, output validation), the
  run fails with \<open>e\<close> itself, the root \<open>span_end\<close> with the message of \<open>e\<close> is its last
  event, and the sink is closed. That root \<open>span_end\<close> is the only one of the run when
  the target only appends events and ends only spans allocated during its call, as the
  wrappers do; a target is free to call \<open>ctx.trace.emit\<close> with a \<open>span_end\<close> of the root
  span itself, hence the hypothesis.
\<close>

lemma run_failure_closes_root_and_rethrows:
  assumes own: "appends_own_spans (run tg)"
    and thr: "chain_error oc tg inp w = Some e"
  shows "fst (createRuntime_run oc tg inp w) = Inl e \<and>
         length (filter (is_span_end (next_uuid w + 1))
                   (emitted w (snd (createRuntime_run oc tg inp w)))) = 1 \<and>
         last (events (snd (createRuntime_run oc tg inp w))) =
           SpanEnd (next_uuid w) (next_uuid w + 1) None (name tg) (Some (err_message e)) \<and>
         sink_closed (snd (createRuntime_run oc tg inp w))"
proof (cases "safeParse (input tg) inp")
  case (Inl issues)
  with thr have e: "e = ValidationError issues ''input validation failed''"
    by (simp add: chain_error_def)
  have r: "createRuntime_run oc tg inp w =
      (Inl e, w\<lparr> next_uuid := next_uuid w + 2,
                 events := events w @ [SpanStart (next_uuid w) (next_uuid w + 1) None (name tg),
                            ValidationErrorEv (next_uuid w) (next_uuid w + 1) DirInput issues,
                            SpanEnd (next_uuid w) (next_uuid w + 1) None (name tg) (Some (err_message e))],
                 sink_closed := True \<rparr>)"
    unfolding createRuntime_run_unfold
    by (simp add: validateWithZod_def Inl run_catch_eq emit_def run_started_def e)
  show ?thesis unfolding r by (simp add: emitted_def)
next
  case (Inr v)
  obtain r5 w5 where b: "run tg (run_ctx oc w) v (run_started tg w) = (r5, w5)"
    by (cases "run tg (run_ctx oc w) v (run_started tg w)")
  from own obtain evs where
    ev: "events (snd (run tg (run_ctx oc w) v (run_started tg w))) = events (run_started tg w) @ evs"
    and fr: "\<forall>e \<in> set evs. \<forall>sid. is_span_end sid e \<longrightarrow> next_uuid (run_started tg w) \<le> sid"
    unfolding appends_own_spans_def by blast
  from ev b have ev5: "events w5 = events w @ [SpanStart (next_uuid w) (next_uuid w + 1) None (name tg)] @ evs"
    by (simp add: events_run_started)
  from fr have nr: "filter (is_span_end (next_uuid w + 1)) evs = []"
    by (intro no_root_end) (simp add: events_run_started)
  show ?thesis
  proof (cases r5)
    case (Inl e0)
    with thr Inr b have e: "e = e0" by (simp add: chain_error_def)
    have r: "createRuntime_run oc tg inp w =
        (Inl e, w5\<lparr> events := events w5 @ [SpanEnd (next_uuid w) (next_uuid w + 1) None (name tg) (Some (err_message e))],
                    sink_closed := True \<rparr>)"
      unfolding createRuntime_run_unfold
      by (simp add: validateWithZod_def Inr b Inl run_catch_eq e)
    show ?thesis unfolding r using nr by (simp add: emitted_def ev5)
  next
    case out: (Inr out)
    show ?thesis
    proof (cases "safeParse (output' tg) out")
      case (Inl issues)
      with thr Inr b out have e: "e = ValidationError issues ''output validation failed''"
        by (simp add: chain_error_def)
      have r: "createRuntime_run oc tg inp w =
          (Inl e, w5\<lparr> events := events w5 @
                        [ValidationErrorEv (next_uuid w) (next_uuid w + 1) DirOutput issues,
                         SpanEnd (next_uuid w) (next_uuid w + 1) None (name tg) (Some (err_message e))],
                      sink_closed := True \<rparr>)"
        unfolding createRuntime_run_unfold
        by (simp add: validateWithZod_def Inr b out Inl run_catch_eq e emit_def)
      show ?thesis unfolding r using nr by (simp add: emitted_def ev5)
    next
      case (Inr data)
      with thr \<open>safeParse (input tg) inp = Inr v\<close> b out show ?thesis
        by (simp add: chain_error_def)
    qed
  qed
qed

lemma own_spansI:
  "events w' = events w @ evs \<Longrightarrow> \<forall>e \<in> set evs. \<forall>sid. is_span_end sid e \<longrightarrow> n \<le> sid \<Longrightarrow>
   \<exists>evs. events w' = events w @ evs \<and> (\<forall>e \<in> set evs. \<forall>sid. is_span_end sid e \<longrightarrow> n \<le> sid)"
  by blast

lemma appends_own_spans_defineStep:
  assumes "appends_own_spans (run step)"
  shows "appends_own_spans (run (defineStep step))"
  unfolding appends_own_spans_def
proof (intro allI)
  fix ctx v w
  let ?c = "fst (Ctx_child ctx (name step) w)"
  let ?w1 = "snd (Ctx_child ctx (name step) w)"
  let ?start = "SpanStart (Trace.runId (trace ctx)) (next_uuid w) (Some (Trace.spanId (trace ctx))) (name step)"
  have w1: "events ?w1 = events w @ [?start]" "next_uuid ?w1 = next_uuid w + 1"
    "Ctx.spanId ?c = next_uuid w"
    by (simp_all add: Ctx_child_eq)
  show "\<exists>evs. events (snd (run (defineStep step) ctx v w)) = events w @ evs \<and>
           (\<forall>e \<in> set evs. \<forall>sid. is_span_end sid e \<longrightarrow> next_uuid w \<le> sid)"
  proof (cases "safeParse (input step) v")
    case (Inl issues)
    then show ?thesis
      by (simp add: defineStep_def Ctx_child_eq validateWithZod_def emit_def)
  next
    case (Inr vi)
    obtain r3 w3 where b: "run step ?c vi ?w1 = (r3, w3)"
      by (cases "run step ?c vi ?w1")
    from assms obtain evs where
      ev: "events (snd (run step ?c vi ?w1)) = events ?w1 @ evs"
      and fr: "\<forall>e \<in> set evs. \<forall>sid. is_span_end sid e \<longrightarrow> next_uuid ?w1 \<le> sid"
      unfolding appends_own_spans_def by blast
    from ev b have ev3: "events w3 = events w @ [?start] @ evs" by (simp add: w1)
    from fr have fr': "\<forall>e \<in> set evs. \<forall>sid. is_span_end sid e \<longrightarrow> next_uuid w \<le> sid"
      unfolding w1 using Suc_leD by fastforce
    from b have b': "run step (fst (Ctx_child ctx (name step) w)) vi (snd (Ctx_child ctx (name step) w)) = (r3, w3)" .
    show ?thesis
    proof (cases r3)
      case (Inl e0)
      have "events (snd (run (defineStep step) ctx v w)) =
              events w @ ([?start] @ evs @ [SpanEnd (Trace.runId (trace ctx)) (next_uuid w)
                 (Some (Trace.spanId (trace ctx))) (name step) (Some (err_message e0))])"
        using b' Inl \<open>safeParse (input step) v = Inr vi\<close>
        by (simp add: defineStep_def validateWithZod_def split_beta emit_def ev3 Ctx_child_eq)
      then show ?thesis by (rule own_spansI) (use fr' in auto)
    next
      case out: (Inr out)
      show ?thesis
      proof (cases "safeParse (output' step) out")
        case (Inl issues)
        have "events (snd (run (defineStep step) ctx v w)) =
                events w @ ([?start] @ evs @ [ValidationErrorEv (Trace.runId (trace ctx)) (next_uuid w) DirOutput issues,
                   SpanEnd (Trace.runId (trace ctx)) (next_uuid w)
                   (Some (Trace.spanId (trace ctx))) (name step) (Some ''output validation failed'')])"
          using b' out Inl \<open>safeParse (input step) v = Inr vi\<close>
          by (simp add: defineStep_def validateWithZod_def split_beta emit_def ev3 Ctx_child_eq)
        then show ?thesis by (rule own_spansI) (use fr' in auto)
      next
        case (Inr data)
        have "events (snd (run (defineStep step) ctx v w)) =
                events w @ ([?start] @ evs @ [SpanEnd (Trace.runId (trace ctx)) (next_uuid w)
                   (Some (Trace.spanId (trace ctx))) (name step) None])"
          using b' out Inr \<open>safeParse (input step) v = Inr vi\<close>
          by (simp add: defineStep_def validateWithZod_def split_beta emit_def ev3 Ctx_child_eq)
        then show ?thesis by (rule own_spansI) (use fr' in auto)
      qed
    qed
  qed
qed

lemma no_own_end:
  assumes "\<forall>e \<in> set evs. \<forall>sid. is_span_end sid e \<longrightarrow> n + 1 \<le> sid"
  shows "filter (is_span_end n) evs = []"
proof -
  have "\<forall>e \<in> set evs. \<not> is_span_end n e"
  proof
    fix e assume "e \<in> set evs"
    with assms have "is_span_end n e \<longrightarrow> n + 1 \<le> n" by blast
    then show "\<not> is_span_end n e" by simp
  qed
  then show ?thesis by (simp add: filter_empty_conv)
qed

text \<open>
  With a valid input the wrapper does close its span, on normal return, on a failure of
  the body and on a failure of the output validation: among the events of the call,
  which start with the \<open>span_start\<close>, the last one is the one \<open>span_end\<close> of the child
  span. \<open>Trace.span\<close> closes its span on every path.
\<close>

lemma defineStep_closes_span:
  assumes v: "safeParse (input step) inp = Inr vi"
    and own: "appends_own_spans (run step)"
  shows "length (filter (is_span_end (next_uuid w))
                   (emitted w (snd (run (defineStep step) ctx inp w)))) = 1 \<and>
         hd (emitted w (snd (run (defineStep step) ctx inp w))) =
           SpanStart (Trace.runId (trace ctx)) (next_uuid w) (Some (Trace.spanId (trace ctx))) (name step) \<and>
         (\<exists>err. last (emitted w (snd (run (defineStep step) ctx inp w))) =
            SpanEnd (Trace.runId (trace ctx)) (next_uuid w) (Some (Trace.spanId (trace ctx))) (name step) err)"
proof -
  let ?c = "fst (Ctx_child ctx (name step) w)"
  let ?w1 = "snd (Ctx_child ctx (name step) w)"
  let ?start = "SpanStart (Trace.runId (trace ctx)) (next_uuid w) (Some (Trace.spanId (trace ctx))) (name step)"
  let ?end = "SpanEnd (Trace.runId (trace ctx)) (next_uuid w) (Some (Trace.spanId (trace ctx))) (name step)"
  have w1: "events ?w1 = events w @ [?start]" "next_uuid ?w1 = next_uuid w + 1"
    by (simp_all add: Ctx_child_eq)
  obtain r3 w3 where b: "run step ?c vi ?w1 = (r3, w3)"
    by (cases "run step ?c vi ?w1")
  from own obtain evs where
    ev: "events (snd (run step ?c vi ?w1)) = events ?w1 @ evs"
    and fr: "\<forall>e \<in> set evs. \<forall>sid. is_span_end sid e \<longrightarrow> next_uuid ?w1 \<le> sid"
    unfolding appends_own_spans_def by blast
  from ev b have ev3: "events w3 = events w @ [?start] @ evs" by (simp add: w1)
  from fr have nr: "filter (is_span_end (next_uuid w)) evs = []"
    unfolding w1 by (rule no_own_end)
  have "\<exists>tail err. emitted w (snd (run (defineStep step) ctx inp w)) = [?start] @ evs @ tail @ [?end err] \<and>
          filter (is_span_end (next_uuid w)) tail = []"
  proof (cases r3)
    case (Inl e0)
    have "events (snd (run (defineStep step) ctx inp w)) = events w @ ([?start] @ evs @ [] @ [?end (Some (err_message e0))])"
      using b Inl v
      by (simp add: defineStep_def validateWithZod_def split_beta emit_def ev3 Ctx_child_eq)
    then have "emitted w (snd (run (defineStep step) ctx inp w)) = [?start] @ evs @ [] @ [?end (Some (err_message e0))]"
      by (rule emitted_append)
    moreover have "filter (is_span_end (next_uuid w)) [] = []" by simp
    ultimately show ?thesis by blast
  next
    case out: (Inr out)
    show ?thesis
    proof (cases "safeParse (output' step) out")
      case (Inl issues)
      have "events (snd (run (defineStep step) ctx inp w)) =
              events w @ ([?start] @ evs @ [ValidationErrorEv (Trace.runId (trace ctx)) (next_uuid w) DirOutput issues]
                 @ [?end (Some ''output validation failed'')])"
        using b out Inl v
        by (simp add: defineStep_def validateWithZod_def split_beta emit_def ev3 Ctx_child_eq)
      then have "emitted w (snd (run (defineStep step) ctx inp w)) =
              [?start] @ evs @ [ValidationErrorEv (Trace.runId (trace ctx)) (next_uuid w) DirOutput issues]
                 @ [?end (Some ''output validation failed'')]"
        by (rule emitted_append)
      moreover have "filter (is_span_end (next_uuid w))
                       [ValidationErrorEv (Trace.runId (trace ctx)) (next_uuid w) DirOutput issues] = []"
        by simp
      ultimately show ?thesis by blast
    next
      case (Inr data)
      have "events (snd (run (defineStep step) ctx inp w)) = events w @ ([?start] @ evs @ [] @ [?end None])"
        using b out Inr v
        by (simp add: defineStep_def validateWithZod_def split_beta emit_def ev3 Ctx_child_eq)
      then have "emitted w (snd (run (defineStep step) ctx inp w)) = [?start] @ evs @ [] @ [?end None]"
        by (rule emitted_append)
      moreover have "filter (is_span_end (next_uuid w)) [] = []" by simp
      ultimately show ?thesis by blast
    qed
  qed
  then obtain tail err where
    em: "emitted w (snd (run (defineStep step) ctx inp w)) = [?start] @ evs @ tail @ [?end err]"
    and nt: "filter (is_span_end (next_uuid w)) tail = []"
    by blast
  show ?thesis unfolding em using nr nt by simp
qed

lemma Trace_span_always_ends:
  "\<exists>err. events (snd (Trace_span tr nm fn w)) =
     events (snd (fn (snd (Trace_child tr nm w)))) @
       [SpanEnd (Trace.runId tr) (next_uuid w) (Some (Trace.spanId tr)) nm err]"
  by (auto simp: Trace_span_def Trace_child_def randomUUID_def Let_def emit_def
           split: prod.splits sum.splits)

lemma ex_failing_own: "appends_own_spans (run (defineStep ex_failing))"
proof (rule appends_own_spans_defineStep)
  show "appends_own_spans (run ex_failing)"
    by (simp add: appends_own_spans_def ex_failing_def)
qed

lemma ex_failing_run:
  "createRuntime_run None (defineStep ex_failing) (JStr ''x'') w0 =
     (Inl (OtherError ''boom''),
      w0\<lparr> next_uuid := 5,
          events := [SpanStart 2 3 None ''failing'',
                     SpanStart 2 4 (Some 3) ''failing'',
                     SpanEnd 2 4 (Some 3) ''failing'' (Some ''boom''),
                     SpanEnd 2 3 None ''failing'' (Some ''boom'')],
          sink_closed := True \<rparr>)"
  by (simp add: createRuntime_run_def randomUUID_def Let_def emit_def close_def run_catch_def
        validateWithZod_def defineStep_def Ctx_child_eq ex_failing_def nonempty_string_def w0_def)

lemma ex_failing_chain:
  "chain_error None (defineStep ex_failing) (JStr ''x'') w0 = Some (OtherError ''boom'')"
  by (simp add: chain_error_def run_started_def run_ctx_def emit_def
        validateWithZod_def defineStep_def Ctx_child_eq ex_failing_def nonempty_string_def w0_def)

lemma run_failure_closes_root_and_rethrows_example:
  "appends_own_spans (run (defineStep ex_failing)) \<and>
   chain_error None (defineStep ex_failing) (JStr ''x'') w0 = Some (OtherError ''boom'') \<and>
   fst (createRuntime_run None (defineStep ex_failing) (JStr ''x'') w0) = Inl (OtherError ''boom'') \<and>
   length (filter (is_span_end 3)
             (emitted w0 (snd (createRuntime_run None (defineStep ex_failing) (JStr ''x'') w0)))) = 1 \<and>
   last (events (snd (createRuntime_run None (defineStep ex_failing) (JStr ''x'') w0))) =
     SpanEnd 2 3 None ''failing'' (Some ''boom'') \<and>
   sink_closed (snd (createRuntime_run None (defineStep ex_failing) (JStr ''x'') w0))"
  using run_failure_closes_root_and_rethrows[OF ex_failing_own ex_failing_chain]
    ex_failing_own ex_failing_chain
  by (simp add: w0_def defineStep_def ex_failing_def)

text \<open>
  C2: the run of a step whose body throws \<open>boom\<close>, with input \<open>"x"\<close>. The orchestrator
  catches the error, emits the root \<open>span_end\<close> with the message, closes the sink and
  rethrows \<open>boom\<close>; it produces no RunRecord at all, where the claim says a RunRecord
  with status failure. The \<open>catch\<close> block assigns \<open>status = 'failure'\<close> and then throws;
  \<open>status\<close> is read only where the RunRecord is built, inside the \<open>try\<close> block, so the
  assignment is never read and no caller sees a failed record.
\<close>

theorem failed_run_returns_no_record:
  "chain_error None (defineStep ex_failing) (JStr ''x'') w0 = Some (OtherError ''boom'') \<and>
   createRuntime_run None (defineStep ex_failing) (JStr ''x'') w0 =
     (Inl (OtherError ''boom''),
      w0\<lparr> next_uuid := 5,
          events := [SpanStart 2 3 None ''failing'',
                     SpanStart 2 4 (Some 3) ''failing'',
                     SpanEnd 2 4 (Some 3) ''failing'' (Some ''boom''),
                     SpanEnd 2 3 None ''failing'' (Some ''boom'')],
          sink_closed := True \<rparr>) \<and>
   result_record (fst (createRuntime_run None (defineStep ex_failing) (JStr ''x'') w0)) = None"
  by (simp add: ex_failing_chain ex_failing_run result_record_def)

section \<open>Properties of the generation call\<close>

lemma backend_calls_generate_catch [simp]:
  "backend_calls (snd (generate_catch ctx args err w)) = backend_calls w"
  "cache_store (snd (generate_catch ctx args err w)) = cache_store w"
  "fst (generate_catch ctx args err w) = Inl err"
  by (simp_all add: generate_catch_def Trace_event_def emit_def)






text \<open>A miss that fails in the backend or in the validation hands nothing to the cache.\<close>

lemma generate_try_failure:
  assumes "generate_try P responder ctx args key w = (Inl e, w1)"
  shows "cache_store w1 = cache_store w"
  using assms
  by (auto simp: generate_try_def Let_def generate_catch_def Trace_event_def emit_def
        split: sum.splits option.splits)



text \<open>
  The same holds of two calls that succeed when the cache does not return what it was
  handed: with \<open>dropCache\<close> the second call is a miss again.
\<close>

lemma unretained_result_is_fetched_again:
  "cache ex_drop_ctx = Some dropCache \<and>
   fst (generate ex_platform (static_responder ''hi'') ex_drop_ctx ex_args w0) =
     Inr (llm_result hi_response JUndefined) \<and>
   fst (generate ex_platform (static_responder ''hi'') ex_drop_ctx ex_args
          (snd (generate ex_platform (static_responder ''hi'') ex_drop_ctx ex_args w0))) =
     Inr (llm_result hi_response JUndefined) \<and>
   backend_calls
     (snd (generate ex_platform (static_responder ''hi'') ex_drop_ctx ex_args
        (snd (generate ex_platform (static_responder ''hi'') ex_drop_ctx ex_args w0)))) = 2"
  by (simp add: generate_def generate_try_def maybeGet_def maybeSet_def Let_def dropCache_def
        ex_drop_ctx_def ex_cache_ctx_def static_responder_def ex_args_def w0_def hi_response_def
        Trace_event_def emit_def)




lemma parse_failure_propagates:
  assumes "maybeGet (cache ctx) (cacheKey P args) w = Inr cached" and "\<not> truthy cached"
    and "schema args = Some sch" and "responder args = Inr response"
    and "parseWithSchema P sch (raw response) = Inl e"
  shows "fst (generate P responder ctx args w) = Inl e \<and>
         cache_store (snd (generate P responder ctx args w)) = cache_store w"
  using assms by (simp add: generate_def generate_try_def Let_def)

lemma parse_success_result:
  assumes "maybeGet (cache ctx) (cacheKey P args) w = Inr cached" and "\<not> truthy cached"
    and "schema args = Some sch" and "responder args = Inr response"
    and "parseWithSchema P sch (raw response) = Inr data"
    and "generate P responder ctx args w = (Inr res, w')"
  shows "res = llm_result response data"
  using assms
  by (auto simp: generate_def generate_try_def Let_def generate_catch_def split: sum.splits)

text \<open>
  C8: on a miss with a schema, the candidate is the decoded JSON of the raw text, or the
  raw text itself when decoding fails. When the schema rejects the candidate the call
  fails with the validation error carrying the issues (and caches nothing); when it
  accepts, the result carries the validated data as \<open>parsed\<close>.
\<close>

theorem schema_failure_fails_generation:
  assumes g: "maybeGet (cache ctx) (cacheKey P args) w = Inr cached" and f: "\<not> truthy cached"
    and sch: "schema args = Some sch"
    and resp: "responder args = Inr response"
    and cand: "candidate = (case JSON_parse P (raw response) of Some j \<Rightarrow> j | None \<Rightarrow> JStr (raw response))"
  shows "(\<forall>issues. safeParse sch candidate = Inl issues \<longrightarrow>
            fst (generate P responder ctx args w) =
              Inl (ValidationError issues ''LLM output failed schema validation'') \<and>
            cache_store (snd (generate P responder ctx args w)) = cache_store w) \<and>
         (\<forall>data res w'. safeParse sch candidate = Inr data \<longrightarrow>
            generate P responder ctx args w = (Inr res, w') \<longrightarrow>
            res = llm_result response data)"
proof (intro conjI allI impI)
  fix issues assume i: "safeParse sch candidate = Inl issues"
  then have p: "parseWithSchema P sch (raw response) =
                  Inl (ValidationError issues ''LLM output failed schema validation'')"
    by (simp add: parseWithSchema_def cand Let_def)
  from parse_failure_propagates[where responder = responder and args = args, OF g f sch resp p]
  show "fst (generate P responder ctx args w) =
          Inl (ValidationError issues ''LLM output failed schema validation'')"
    and "cache_store (snd (generate P responder ctx args w)) = cache_store w"
    by simp_all
next
  fix data res w'
  assume d: "safeParse sch candidate = Inr data"
    and r: "generate P responder ctx args w = (Inr res, w')"
  from d have p: "parseWithSchema P sch (raw response) = Inr data"
    by (simp add: parseWithSchema_def cand Let_def)
  from parse_success_result[where responder = responder and args = args, OF g f sch resp p r] show "res = llm_result response data" .
qed

theorem schema_failure_fails_generation_witness:
  "maybeGet (cache ex_cache_ctx) (cacheKey ex_platform ex_args_schema) w0 = Inr JUndefined \<and>
   schema ex_args_schema = Some nonempty_string \<and>
   static_responder ''42'' ex_args_schema = Inr \<lparr> raw = ''42'', tokens = JUndefined, costUsd = JUndefined \<rparr> \<and>
   JSON_parse ex_platform ''42'' = Some (JNum 42) \<and>
   safeParse nonempty_string (JNum 42) = Inl (JArr [JStr ''invalid_type'']) \<and>
   fst (generate ex_platform (static_responder ''42'') ex_cache_ctx ex_args_schema w0) =
     Inl (ValidationError (JArr [JStr ''invalid_type'']) ''LLM output failed schema validation'') \<and>
   cache_store (snd (generate ex_platform (static_responder ''42'') ex_cache_ctx ex_args_schema w0)) =
     cache_store w0"
proof -
  let ?resp = "\<lparr> raw = ''42'', tokens = JUndefined, costUsd = JUndefined \<rparr>"
  have g: "maybeGet (cache ex_cache_ctx) (cacheKey ex_platform ex_args_schema) w0 = Inr JUndefined"
    by (simp add: maybeGet_def ex_cache_ctx_def mapCache_def w0_def)
  have f: "\<not> truthy JUndefined" by simp
  have sch: "schema ex_args_schema = Some nonempty_string"
    by (simp add: ex_args_schema_def)
  have resp: "static_responder ''42'' ex_args_schema = Inr ?resp"
    by (simp add: static_responder_def)
  have jp: "JSON_parse ex_platform ''42'' = Some (JNum 42)"
    by (simp add: ex_platform_def)
  have cand: "JNum 42 = (case JSON_parse ex_platform (raw ?resp) of Some j \<Rightarrow> j | None \<Rightarrow> JStr (raw ?resp))"
    by (simp add: jp)
  have i: "safeParse nonempty_string (JNum 42) = Inl (JArr [JStr ''invalid_type''])"
    by (simp add: nonempty_string_def)
  note h = schema_failure_fails_generation[where responder = "static_responder ''42''" and args = ex_args_schema,
             OF g f sch resp cand, THEN conjunct1, rule_format, OF i]
  from h g sch resp jp i show ?thesis by blast
qed

section \<open>Properties of the cache key\<close>

lemma sorted_insort_by:
  assumes c: "consistent_comparator cmp"
    and s: "sorted_wrt (\<lambda>x y. cmp (fst x) (fst y) \<le> 0) ys"
  shows "sorted_wrt (\<lambda>x y. cmp (fst x) (fst y) \<le> 0) (insort_by cmp x ys)"
  using s
proof (induction ys)
  case Nil
  then show ?case by simp
next
  case (Cons y ys)
  from c have anti: "\<And>a b. (cmp a b < 0) = (cmp b a > 0)"
    and trans: "\<And>a b c. cmp a b \<le> 0 \<Longrightarrow> cmp b c \<le> 0 \<Longrightarrow> cmp a c \<le> 0"
    unfolding consistent_comparator_def by blast+
  show ?case
  proof (cases "cmp (fst x) (fst y) \<le> 0")
    case True
    with Cons.prems trans show ?thesis by auto
  next
    case False
    then have "cmp (fst x) (fst y) > 0" by simp
    with anti have "cmp (fst y) (fst x) < 0" by simp
    then have yx: "cmp (fst y) (fst x) \<le> 0" by simp
    from Cons have "sorted_wrt (\<lambda>x y. cmp (fst x) (fst y) \<le> 0) (insort_by cmp x ys)" by simp
    with False Cons.prems yx show ?thesis by auto
  qed
qed

lemma sort_entries_simps:
  "sort_entries cmp [] = []"
  "sort_entries cmp (e # es) = insort_by cmp e (sort_entries cmp es)"
  by (simp_all add: sort_entries_def)

lemma sorted_sort_entries:
  "consistent_comparator cmp \<Longrightarrow> sorted_wrt (\<lambda>x y. cmp (fst x) (fst y) \<le> 0) (sort_entries cmp es)"
  by (induction es) (simp_all add: sort_entries_simps sorted_insort_by)

lemma distinct_insort_by:
  "distinct (map fst (insort_by cmp x ys)) = (fst x \<notin> fst ` set ys \<and> distinct (map fst ys))"
  by (induction ys) auto

lemma distinct_sort_entries:
  "distinct (map fst (sort_entries cmp es)) = distinct (map fst es)"
  by (induction es) (simp_all add: sort_entries_simps distinct_insort_by)

lemma sorted_unique:
  assumes anti: "\<And>a b. (cmp a b < 0) = (cmp b a > 0)"
  shows "sorted_wrt (\<lambda>x y. cmp (fst x) (fst y) \<le> 0) xs \<Longrightarrow>
         sorted_wrt (\<lambda>x y. cmp (fst x) (fst y) \<le> 0) ys \<Longrightarrow>
         distinct (map fst xs) \<Longrightarrow> distinct (map fst ys) \<Longrightarrow> set xs = set ys \<Longrightarrow>
         untied cmp (fst ` set xs) \<Longrightarrow> xs = ys"
proof (induction xs arbitrary: ys)
  case Nil
  then show ?case by simp
next
  case (Cons x xs)
  from Cons.prems(5) obtain y ys' where ys: "ys = y # ys'" by (cases ys) auto
  have xy: "x = y"
  proof (rule ccontr)
    assume ne: "x \<noteq> y"
    from Cons.prems(5) ys ne have x_in: "x \<in> set ys'" and y_in: "y \<in> set xs" by auto
    from Cons.prems(2) ys x_in have le1: "cmp (fst y) (fst x) \<le> 0" by auto
    from Cons.prems(1) y_in have le2: "cmp (fst x) (fst y) \<le> 0" by auto
    have "cmp (fst x) (fst y) = 0"
    proof (rule ccontr)
      assume "cmp (fst x) (fst y) \<noteq> 0"
      with le2 have "cmp (fst x) (fst y) < 0" by simp
      with anti have "cmp (fst y) (fst x) > 0" by simp
      with le1 show False by simp
    qed
    moreover have "fst x \<in> fst ` set (x # xs)" "fst y \<in> fst ` set (x # xs)"
      using y_in by auto
    ultimately have "fst x = fst y" using Cons.prems(6) unfolding untied_def by blast
    with Cons.prems(3) y_in show False by (auto simp: image_iff)
  qed
  from Cons.prems(3) have nx: "x \<notin> set xs" by (auto simp: image_iff)
  from Cons.prems(4) ys have ny: "y \<notin> set ys'" by (auto simp: image_iff)
  from Cons.prems(5) ys xy nx ny have seq: "set xs = set ys'" by auto
  have "untied cmp (fst ` set xs)" using Cons.prems(6) unfolding untied_def by auto
  with Cons.IH[of ys'] Cons.prems ys seq have "xs = ys'" by auto
  with xy ys show ?case by simp
qed

lemma sort_entries_unique:
  assumes c: "consistent_comparator cmp"
    and "distinct (map fst es)" "distinct (map fst fs)" "set es = set fs"
    and "untied cmp (fst ` set es)"
  shows "sort_entries cmp es = sort_entries cmp fs"
proof (rule sorted_unique[of cmp])
  from c show "\<And>a b. (cmp a b < 0) = (cmp b a > 0)"
    unfolding consistent_comparator_def by blast
qed (use assms in \<open>simp_all add: sorted_sort_entries distinct_sort_entries\<close>)

lemma insort_by_map:
  assumes "\<And>z. fst (f z) = fst z"
  shows "insort_by cmp (f x) (map f ys) = map f (insort_by cmp x ys)"
  by (induction ys) (simp_all add: assms)

lemma sort_entries_map:
  assumes "\<And>z. fst (f z) = fst z"
  shows "sort_entries cmp (map f es) = map f (sort_entries cmp es)"
  by (induction es) (simp_all add: sort_entries_simps insort_by_map[OF assms])

lemma fst_render_entry [simp]: "fst (render_entry cmp e) = fst e"
  by (simp add: render_entry_def)

lemma stableStringify_obj_render:
  "stableStringify cmp (JObj es) =
     Some (''{'' @ join_comma (map (\<lambda>p. JSON_quote (fst p) @ '':'' @ snd p)
                                 (sort_entries cmp (map (render_entry cmp) es))) @ ''}'')"
proof -
  have "sort_entries cmp (map (render_entry cmp) es) = map (render_entry cmp) (sort_entries cmp es)"
    by (rule sort_entries_map) simp
  then show ?thesis by (simp add: render_entry_def comp_def)
qed

lemma untied_mono: "K' \<subseteq> K \<Longrightarrow> untied cmp K \<Longrightarrow> untied cmp K'"
  unfolding untied_def by blast

lemma all_keys_entry: "(k, v) \<in> set es \<Longrightarrow> all_keys v \<subseteq> all_keys (JObj es)"
  by force

lemma all_keys_elem: "v \<in> set vs \<Longrightarrow> all_keys v \<subseteq> all_keys (JArr vs)"
  by auto

lemma stableStringify_key_perm:
  assumes c: "consistent_comparator cmp" and kp: "key_perm a b"
  shows "untied cmp (all_keys a \<union> all_keys b) \<Longrightarrow> stableStringify cmp a = stableStringify cmp b"
  using kp
proof (induction rule: key_perm.induct)
  case (same v)
  show ?case by simp
next
  case (arr xs ys)
  from arr(1) have len: "length xs = length ys"
    by (rule list_all2_lengthD)
  have "map (stableStringify cmp) xs = map (stableStringify cmp) ys"
  proof (rule nth_equalityI)
    show "length (map (stableStringify cmp) xs) = length (map (stableStringify cmp) ys)"
      using len by simp
  next
    fix i assume "i < length (map (stableStringify cmp) xs)"
    then have i: "i < length xs" by simp
    with len have i': "i < length ys" by simp
    from arr(1) i have imp: "untied cmp (all_keys (xs ! i) \<union> all_keys (ys ! i)) \<longrightarrow>
        stableStringify cmp (xs ! i) = stableStringify cmp (ys ! i)"
      by (auto simp: list_all2_conv_all_nth)
    have "all_keys (xs ! i) \<union> all_keys (ys ! i) \<subseteq> all_keys (JArr xs) \<union> all_keys (JArr ys)"
      using all_keys_elem[of "xs ! i" xs] all_keys_elem[of "ys ! i" ys] i i' by auto
    with arr(2) have "untied cmp (all_keys (xs ! i) \<union> all_keys (ys ! i))"
      by (rule untied_mono[rotated])
    with imp i i' show "map (stableStringify cmp) xs ! i = map (stableStringify cmp) ys ! i"
      by simp
  qed
  then have "map (\<lambda>r. case r of None \<Rightarrow> [] | Some s \<Rightarrow> s) (map (stableStringify cmp) xs) =
             map (\<lambda>r. case r of None \<Rightarrow> [] | Some s \<Rightarrow> s) (map (stableStringify cmp) ys)"
    by simp
  then have "map (\<lambda>v. case stableStringify cmp v of None \<Rightarrow> [] | Some s \<Rightarrow> s) xs =
             map (\<lambda>v. case stableStringify cmp v of None \<Rightarrow> [] | Some s \<Rightarrow> s) ys"
    by (simp add: comp_def)
  then show ?case by simp
next
  case (obj es fs)
  have rel: "\<And>k v w. (k, v) \<in> set es \<Longrightarrow> (k, w) \<in> set fs \<Longrightarrow>
               stableStringify cmp v = stableStringify cmp w"
  proof -
    fix k v w assume e: "(k, v) \<in> set es" and f: "(k, w) \<in> set fs"
    with obj(4) have imp: "untied cmp (all_keys v \<union> all_keys w) \<longrightarrow>
        stableStringify cmp v = stableStringify cmp w" by blast
    have "all_keys v \<union> all_keys w \<subseteq> all_keys (JObj es) \<union> all_keys (JObj fs)"
      using all_keys_entry[OF e] all_keys_entry[OF f] by blast
    with obj(5) have "untied cmp (all_keys v \<union> all_keys w)"
      by (rule untied_mono[rotated])
    with imp show "stableStringify cmp v = stableStringify cmp w" by simp
  qed
  have sub1: "set (map (render_entry cmp) es) \<subseteq> set (map (render_entry cmp) fs)"
  proof
    fix p assume "p \<in> set (map (render_entry cmp) es)"
    then obtain k v where e: "(k, v) \<in> set es" and p: "p = render_entry cmp (k, v)" by auto
    from e have "k \<in> fst ` set es" by force
    with obj(3) obtain w where f: "(k, w) \<in> set fs" by force
    from rel[OF e f] p have "p = render_entry cmp (k, w)" by (simp add: render_entry_def)
    with f show "p \<in> set (map (render_entry cmp) fs)" by auto
  qed
  have sub2: "set (map (render_entry cmp) fs) \<subseteq> set (map (render_entry cmp) es)"
  proof
    fix p assume "p \<in> set (map (render_entry cmp) fs)"
    then obtain k w where f: "(k, w) \<in> set fs" and p: "p = render_entry cmp (k, w)" by auto
    from f have "k \<in> fst ` set fs" by force
    with obj(3) obtain v where e: "(k, v) \<in> set es" by force
    from rel[OF e f] p have "p = render_entry cmp (k, v)" by (simp add: render_entry_def)
    with e show "p \<in> set (map (render_entry cmp) es)" by auto
  qed
  have d1: "distinct (map fst (map (render_entry cmp) es))"
    and d2: "distinct (map fst (map (render_entry cmp) fs))"
    using obj(1,2) by (simp_all add: comp_def)
  have "fst ` set (map (render_entry cmp) es) = fst ` set es"
    by (simp add: image_image)
  then have "fst ` set (map (render_entry cmp) es) \<subseteq> all_keys (JObj es) \<union> all_keys (JObj fs)"
    by (simp only: all_keys.simps) blast
  with obj(5) have u: "untied cmp (fst ` set (map (render_entry cmp) es))"
    by (rule untied_mono[rotated])
  have "sort_entries cmp (map (render_entry cmp) es) = sort_entries cmp (map (render_entry cmp) fs)"
    using c d1 d2 _ u by (rule sort_entries_unique) (use sub1 sub2 in blast)
  then show ?case by (simp only: stableStringify_obj_render)
qed

lemma key_perm_cacheKeyObject:
  assumes "model a = model b"
    and "map_option toString (schema a) = map_option toString (schema b)"
    and "(case temperature a of None \<Rightarrow> 0 | Some t \<Rightarrow> t) = (case temperature b of None \<Rightarrow> 0 | Some t \<Rightarrow> t)"
    and "maxTokens a = maxTokens b"
    and msgs: "list_all2 key_perm (messages a) (messages b)"
    and tls: "list_all2 key_perm (case tools a of None \<Rightarrow> [] | Some ts \<Rightarrow> ts)
                                 (case tools b of None \<Rightarrow> [] | Some ts \<Rightarrow> ts)"
  shows "key_perm (cacheKeyObject a) (cacheKeyObject b)"
proof -
  have sch: "(case schema a of None \<Rightarrow> JUndefined | Some sch \<Rightarrow> JStr (toString sch)) =
             (case schema b of None \<Rightarrow> JUndefined | Some sch \<Rightarrow> JStr (toString sch))"
    using assms(2) by (cases "schema a"; cases "schema b") simp_all
  have m: "key_perm (JArr (messages a)) (JArr (messages b))"
    using msgs by (rule key_perm.arr)
  have t: "key_perm (JArr (case tools a of None \<Rightarrow> [] | Some ts \<Rightarrow> ts))
                    (JArr (case tools b of None \<Rightarrow> [] | Some ts \<Rightarrow> ts))"
    using tls by (rule key_perm.arr)
  show ?thesis
    unfolding cacheKeyObject_def
    apply (rule key_perm.obj)
       apply simp
      apply simp
     apply simp
    using assms(1,3,4) sch m t
    apply (auto intro: key_perm.same)
    done
qed

text \<open>
  Where the sort does make the key canonical: two requests with the same model, schema
  string, maximal size and effective temperature (0 when unset), whose messages and
  tools are structurally equal up to the order of object keys at any nesting level, have
  the same cache key, provided the comparator is consistent and ties no two different
  keys of the requests.
\<close>

lemma cache_key_ignores_key_order:
  assumes cmp: "consistent_comparator (localeCompare P)"
    and "model a = model b"
    and "map_option toString (schema a) = map_option toString (schema b)"
    and "(case temperature a of None \<Rightarrow> 0 | Some t \<Rightarrow> t) = (case temperature b of None \<Rightarrow> 0 | Some t \<Rightarrow> t)"
    and "maxTokens a = maxTokens b"
    and msgs: "list_all2 key_perm (messages a) (messages b)"
    and tls: "list_all2 key_perm (case tools a of None \<Rightarrow> [] | Some ts \<Rightarrow> ts)
                                 (case tools b of None \<Rightarrow> [] | Some ts \<Rightarrow> ts)"
    and untied: "untied (localeCompare P) (all_keys (cacheKeyObject a) \<union> all_keys (cacheKeyObject b))"
  shows "cacheKey P a = cacheKey P b"
proof -
  have "key_perm (cacheKeyObject a) (cacheKeyObject b)"
    using assms(2-7) by (rule key_perm_cacheKeyObject)
  with cmp have "stableStringify (localeCompare P) (cacheKeyObject a) =
                 stableStringify (localeCompare P) (cacheKeyObject b)"
    using untied by (rule stableStringify_key_perm)
  then show ?thesis by (simp add: cacheKey_def)
qed

lemma consistent_codeunit_compare: "consistent_comparator codeunit_compare"
  unfolding consistent_comparator_def codeunit_compare_def by auto

lemma untied_codeunit_compare: "untied codeunit_compare K"
  unfolding untied_def codeunit_compare_def by (auto split: if_splits)

lemma ex_messages_perm: "list_all2 key_perm (messages ex_request_a) (messages ex_request_b)"
  unfolding ex_request_a_def ex_request_b_def
  by (auto intro!: key_perm.obj intro: key_perm.same)

lemma ex_tools_perm:
  "list_all2 key_perm (case tools ex_request_a of None \<Rightarrow> [] | Some ts \<Rightarrow> ts)
                      (case tools ex_request_b of None \<Rightarrow> [] | Some ts \<Rightarrow> ts)"
proof -
  have inner: "key_perm (JObj [(''y'', JNum 1), (''x'', JNull)]) (JObj [(''x'', JNull), (''y'', JNum 1)])"
    by (rule key_perm.obj) (auto intro: key_perm.same)
  have "key_perm (JObj [(''name'', JStr ''t''), (''args'', JObj [(''y'', JNum 1), (''x'', JNull)])])
                 (JObj [(''args'', JObj [(''x'', JNull), (''y'', JNum 1)]), (''name'', JStr ''t'')])"
    by (rule key_perm.obj) (use inner in \<open>auto intro: key_perm.same\<close>)
  then show ?thesis by (simp add: ex_request_a_def ex_request_b_def)
qed

lemma cache_key_ignores_key_order_example:
  "consistent_comparator (localeCompare ex_platform) \<and>
   list_all2 key_perm (messages ex_request_a) (messages ex_request_b) \<and>
   messages ex_request_a \<noteq> messages ex_request_b \<and>
   temperature ex_request_a \<noteq> temperature ex_request_b \<and>
   cacheKey ex_platform ex_request_a = cacheKey ex_platform ex_request_b"
proof -
  have c: "consistent_comparator (localeCompare ex_platform)"
    by (simp add: ex_platform_def consistent_codeunit_compare)
  have u: "untied (localeCompare ex_platform)
             (all_keys (cacheKeyObject ex_request_a) \<union> all_keys (cacheKeyObject ex_request_b))"
    by (simp only: ex_platform_def Platform.simps untied_codeunit_compare)
  have "cacheKey ex_platform ex_request_a = cacheKey ex_platform ex_request_b"
    by (rule cache_key_ignores_key_order[OF c _ _ _ _ ex_messages_perm ex_tools_perm u])
       (simp_all add: ex_request_a_def ex_request_b_def)
  with c ex_messages_perm show ?thesis
    by (simp add: ex_request_a_def ex_request_b_def)
qed

text \<open>
  What a tie does: the sort is stable, so two entries whose keys the comparator ties
  stay in the order in which the object lists them, and the two orders serialise
  differently.
\<close>

lemma tied_keys_keep_their_order:
  assumes "cmp k1 k2 = 0" and "cmp k2 k1 = 0"
  shows "sort_entries cmp [(k1, v1), (k2, v2)] = [(k1, v1), (k2, v2)]"
    and "sort_entries cmp [(k2, v2), (k1, v1)] = [(k2, v2), (k1, v1)]"
  using assms by (simp_all add: sort_entries_def)

lemma tie_breaks_canonical_form:
  assumes "cmp ''a'' key_a1 = 0" and "cmp key_a1 ''a'' = 0"
  shows "stableStringify cmp (JObj [(''a'', JNum 1), (key_a1, JNum 2)]) \<noteq>
         stableStringify cmp (JObj [(key_a1, JNum 2), (''a'', JNum 1)])"
  using assms by (simp add: sort_entries_def JSON_quote_def json_escape_def key_a1_def)

lemma tie_a_a1:
  "collation_compare ''a'' key_a1 = 0" "collation_compare key_a1 ''a'' = 0"
  by (simp_all add: collation_compare_def codeunit_compare_def ignorable_def key_a1_def)

lemma ex_tied_perm:
  "key_perm (JObj [(''a'', JNum 1), (key_a1, JNum 2)]) (JObj [(key_a1, JNum 2), (''a'', JNum 1)])"
  by (rule key_perm.obj) (auto simp: key_a1_def intro: key_perm.same)

lemma ex_tied_keys:
  "cacheKey collation_platform ex_tied_a \<noteq> cacheKey collation_platform ex_tied_b"
  by code_simp

text \<open>
  C4: two requests that are equal but for the order of the keys \<open>"a"\<close> and \<open>"a\u0001"\<close>
  of their one tool. \<open>localeCompare\<close> ties the two keys, the stable sort leaves them in
  the order of each request, and the two cache keys differ, where the claim says they
  are identical: \<open>stableStringify\<close> sorts with \<open>a.localeCompare(b)\<close>, which is not a total
  order of the keys, instead of comparing them code unit by code unit.
\<close>

theorem tied_keys_give_different_cache_keys:
  "localeCompare collation_platform ''a'' key_a1 = 0 \<and>
   localeCompare collation_platform key_a1 ''a'' = 0 \<and>
   model ex_tied_a = model ex_tied_b \<and>
   messages ex_tied_a = messages ex_tied_b \<and>
   map_option toString (schema ex_tied_a) = map_option toString (schema ex_tied_b) \<and>
   temperature ex_tied_a = temperature ex_tied_b \<and>
   maxTokens ex_tied_a = maxTokens ex_tied_b \<and>
   tools ex_tied_a = Some [JObj [(''a'', JNum 1), (key_a1, JNum 2)]] \<and>
   tools ex_tied_b = Some [JObj [(key_a1, JNum 2), (''a'', JNum 1)]] \<and>
   key_perm (JObj [(''a'', JNum 1), (key_a1, JNum 2)]) (JObj [(key_a1, JNum 2), (''a'', JNum 1)]) \<and>
   cacheKey collation_platform ex_tied_a \<noteq> cacheKey collation_platform ex_tied_b"
  using tie_a_a1 ex_tied_perm ex_tied_keys
  by (simp add: collation_platform_def ex_tied_a_def ex_tied_b_def)

end
